theory Spec2Isabelle
  imports Complex_Main
begin

section \<open>Numbers\<close>

text \<open>
  The resize geometry of \<^verbatim>\<open>src/lib/image/resize.ts\<close> works on JavaScript numbers, which
  are IEEE 754 doubles. Pixel dimensions (\<^verbatim>\<open>bitmap.width\<close>, the parsed target width and
  height) are integers and are modelled as \<^typ>\<open>int\<close>. A double is modelled by the real
  number it denotes.

  \<^verbatim>\<open>Math.round\<close> rounds to the nearest integer, a tie going towards \<open>+\<infinity>\<close>; it is exact
  on doubles, as are \<^verbatim>\<open>Math.min\<close> and \<^verbatim>\<open>Math.max\<close>.
  The code divides by \<^verbatim>\<open>srcW\<close>, \<^verbatim>\<open>srcH\<close> and \<^verbatim>\<open>targetH\<close>; JavaScript yields
  \<^verbatim>\<open>Infinity\<close> or \<^verbatim>\<open>NaN\<close> for a zero divisor where HOL yields \<open>0\<close>, so the model stands for
  the code on non-zero divisors only (every theorem below assumes positive dimensions).
\<close>

definition js_round :: "real \<Rightarrow> int" where
  "js_round x = \<lfloor>x + 1 / 2\<rfloor>"

subsection \<open>Double arithmetic\<close>

text \<open>
  An arithmetic operation on doubles returns the double nearest to the exact result, a tie
  going to the double with the even significand. \<open>blen n\<close> is the number of binary digits
  of \<open>n\<close>, \<open>expo x\<close> the exponent of a positive \<open>x\<close> (the \<open>e\<close> with
  \<open>2 ^ e \<le> x < 2 ^ (e + 1)\<close>), and \<open>fl x\<close> rounds \<open>x\<close> to a significand of 53 binary
  digits. The exponent range of doubles is not modelled: there is no overflow and no
  underflow. With positive dimensions below \<open>2 ^ 26\<close>, as the theorems on the cover, inside
  and pad branches assume, every value the geometry forms is zero or lies between
  \<open>2 ^ - 26\<close> and \<open>2 ^ 53\<close>, where doubles behave as \<open>fl\<close> does.
\<close>

fun blen :: "nat \<Rightarrow> nat" where
  "blen n = (if n = 0 then 0 else Suc (blen (n div 2)))"

declare blen.simps [simp del]

definition expo :: "real \<Rightarrow> int" where
  "expo x = (if 1 \<le> x then int (blen (nat \<lfloor>x\<rfloor>)) - 1 else - int (blen (nat (\<lceil>1 / x\<rceil> - 1))))"

definition roundEven :: "real \<Rightarrow> int" where
  "roundEven m =
    (let f = \<lfloor>m\<rfloor>; r = m - of_int f
     in if r < 1 / 2 then f else if 1 / 2 < r then f + 1 else if even f then f else f + 1)"

definition fl :: "real \<Rightarrow> real" where
  "fl x =
    (if x = 0 then 0
     else
       (let a = \<bar>x\<bar>;
            e = expo a - 52;
            y = of_int (roundEven (a * 2 powi (- e))) * 2 powi e
        in if x < 0 then - y else y))"

definition fdiv :: "real \<Rightarrow> real \<Rightarrow> real" where
  "fdiv a b = fl (a / b)"

definition fmul :: "real \<Rightarrow> real \<Rightarrow> real" where
  "fmul a b = fl (a * b)"

definition fsub :: "real \<Rightarrow> real \<Rightarrow> real" where
  "fsub a b = fl (a - b)"

section \<open>Geometry: \<^verbatim>\<open>computeTargetSize\<close>\<close>

datatype Mode = Inside | Cover | Pad | Fill

record DrawParams =
  sx :: int
  sy :: int
  sw :: int
  sh :: int
  dx :: int
  dy :: int
  dw :: int
  dh :: int

record TargetSizeResult =
  outW :: int
  outH :: int
  draw :: DrawParams

text \<open>
  \<^verbatim>\<open>computeTargetSize(srcW, srcH, targetW, targetH, mode)\<close>, branch by branch in the order of
  the source: width-only (\<^verbatim>\<open>targetH === null\<close>), fill, cover, inside, and pad as the
  fall-through. In the cover, inside and pad branches every quotient, product and difference
  is a double operation (\<open>fdiv\<close>, \<open>fmul\<close>, \<open>fsub\<close>). The width-only branch forms one
  quotient of two integers (the product \<^verbatim>\<open>targetW * srcH\<close> is an integer, exact below
  \<open>2 ^ 53\<close>), and \<^verbatim>\<open>Math.round\<close> of the double quotient is the rounding of the exact
  quotient for positive numerators below \<open>2 ^ 52\<close> (lemma \<open>round_quotient_exact\<close> below);
  the branch is written with the exact quotient.
\<close>

definition computeTargetSize :: "int \<Rightarrow> int \<Rightarrow> int \<Rightarrow> int option \<Rightarrow> Mode \<Rightarrow> TargetSizeResult" where
  "computeTargetSize srcW srcH targetW targetH mode =
    (case targetH of
      None \<Rightarrow>
        (let h = max 1 (js_round (of_int (targetW * srcH) / of_int srcW))
         in \<lparr>outW = targetW, outH = h,
             draw = \<lparr>sx = 0, sy = 0, sw = srcW, sh = srcH, dx = 0, dy = 0, dw = targetW, dh = h\<rparr>\<rparr>)
    | Some tH \<Rightarrow>
        if mode = Fill then
          \<lparr>outW = targetW, outH = tH,
           draw = \<lparr>sx = 0, sy = 0, sw = srcW, sh = srcH, dx = 0, dy = 0, dw = targetW, dh = tH\<rparr>\<rparr>
        else
          (let srcRatio = fdiv (of_int srcW) (of_int srcH);
               dstRatio = fdiv (of_int targetW) (of_int tH)
           in if mode = Cover then
                (if srcRatio > dstRatio then
                   (let cw = js_round (fmul (of_int srcH) dstRatio);
                        cx = js_round (fdiv (fsub (of_int srcW) (of_int cw)) 2)
                    in \<lparr>outW = targetW, outH = tH,
                        draw = \<lparr>sx = cx, sy = 0, sw = cw, sh = srcH,
                                dx = 0, dy = 0, dw = targetW, dh = tH\<rparr>\<rparr>)
                 else
                   (let ch = js_round (fdiv (of_int srcW) dstRatio);
                        cy = js_round (fdiv (fsub (of_int srcH) (of_int ch)) 2)
                    in \<lparr>outW = targetW, outH = tH,
                        draw = \<lparr>sx = 0, sy = cy, sw = srcW, sh = ch,
                                dx = 0, dy = 0, dw = targetW, dh = tH\<rparr>\<rparr>))
              else if mode = Inside then
                (let scale = min (fdiv (of_int targetW) (of_int srcW)) (fdiv (of_int tH) (of_int srcH));
                     ow = max 1 (js_round (fmul (of_int srcW) scale));
                     oh = max 1 (js_round (fmul (of_int srcH) scale))
                 in \<lparr>outW = ow, outH = oh,
                     draw = \<lparr>sx = 0, sy = 0, sw = srcW, sh = srcH,
                             dx = 0, dy = 0, dw = ow, dh = oh\<rparr>\<rparr>)
              else
                (let scale = min (fdiv (of_int targetW) (of_int srcW)) (fdiv (of_int tH) (of_int srcH));
                     pw = max 1 (js_round (fmul (of_int srcW) scale));
                     ph = max 1 (js_round (fmul (of_int srcH) scale));
                     px = js_round (fdiv (fsub (of_int targetW) (of_int pw)) 2);
                     py = js_round (fdiv (fsub (of_int tH) (of_int ph)) 2)
                 in \<lparr>outW = targetW, outH = tH,
                     draw = \<lparr>sx = 0, sy = 0, sw = srcW, sh = srcH,
                             dx = px, dy = py, dw = pw, dh = ph\<rparr>\<rparr>)))"

section \<open>Helpers: \<^verbatim>\<open>src/lib/image/utils.ts\<close> and \<^verbatim>\<open>canvas.ts\<close>\<close>

datatype Format = Keep | Jpeg | Png | Webp

definition pickOutputMime :: "string \<Rightarrow> Format \<Rightarrow> string" where
  "pickOutputMime inputMime format =
    (if format = Keep then inputMime
     else if format = Jpeg then ''image/jpeg''
     else if format = Png then ''image/png''
     else if format = Webp then ''image/webp''
     else inputMime)"

definition extFromMime :: "string \<Rightarrow> string" where
  "extFromMime m =
    (if m = ''image/jpeg'' then ''jpg''
     else if m = ''image/png'' then ''png''
     else if m = ''image/webp'' then ''webp''
     else ''png'')"

text \<open>
  \<^verbatim>\<open>filename.replace(/\.[^.]+$/, "")\<close>: the match is the last dot together with the
  characters after it, provided there is a dot and at least one character follows it.
\<close>

definition baseNameOf :: "string \<Rightarrow> string" where
  "baseNameOf filename =
    (let ext = takeWhile (\<lambda>c. c \<noteq> CHR ''.'') (rev filename)
     in if ext \<noteq> [] \<and> length ext < length filename
        then take (length filename - length ext - 1) filename
        else filename)"

text \<open>The quality table of \<^verbatim>\<open>mapQuality01\<close>; a key outside the table gives 0.75.\<close>

definition mapQuality01 :: "int \<Rightarrow> real" where
  "mapQuality01 scale =
    (if scale = 1 then 4 / 10
     else if scale = 2 then 6 / 10
     else if scale = 3 then 75 / 100
     else if scale = 4 then 85 / 100
     else if scale = 5 then 92 / 100
     else 75 / 100)"

text \<open>
  A number inside a template literal (\<^verbatim>\<open>`${outW}`\<close>): the decimal digits of an integer,
  with a leading minus sign when it is negative.
\<close>

fun showNat :: "nat \<Rightarrow> string" where
  "showNat n =
    (if n < 10 then [''0123456789'' ! n]
     else showNat (n div 10) @ [''0123456789'' ! (n mod 10)])"

declare showNat.simps [simp del]

definition showInt :: "int \<Rightarrow> string" where
  "showInt i = (if i < 0 then ''-'' @ showNat (nat (- i)) else showNat (nat i))"

section \<open>The browser: files, bitmaps, canvases\<close>

text \<open>
  What the code takes from the browser is a parameter of the model: whether a canvas
  hands out a 2D context, what \<^verbatim>\<open>canvas.toBlob\<close> produces for a canvas, a MIME type and an
  optional quality (\<open>None\<close> for the \<^verbatim>\<open>null\<close> blob), and what \<^verbatim>\<open>createImageBitmap\<close>
  decodes (\<open>None\<close> when the promise rejects). A canvas records the drawing commands it
  received, in order.
\<close>

record File =
  f_name :: string
  f_type :: string
  f_size :: nat
  f_data :: "nat list"

record bitmap =
  bm_width :: int
  bm_height :: int

datatype blob = Blob "nat list"

datatype canvas_op =
    FillRect string int int int int
  | DrawImage bitmap int int int int int int int int

record canvas =
  c_width :: int
  c_height :: int
  c_fillStyle :: string
  c_ops :: "canvas_op list"

record env =
  getContext2d :: bool
  toBlob :: "canvas \<Rightarrow> string \<Rightarrow> real option \<Rightarrow> blob option"
  createImageBitmap :: "File \<Rightarrow> bitmap option"

datatype error = Error string | DecodeError

definition WHITE_BG :: string where
  "WHITE_BG = ''#ffffff''"

definition createCanvas :: "int \<Rightarrow> int \<Rightarrow> canvas" where
  "createCanvas w h = \<lparr>c_width = w, c_height = h, c_fillStyle = ''#000000'', c_ops = []\<rparr>"

definition fillRect :: "int \<Rightarrow> int \<Rightarrow> int \<Rightarrow> int \<Rightarrow> canvas \<Rightarrow> canvas" where
  "fillRect x y w h c = c\<lparr>c_ops := c_ops c @ [FillRect (c_fillStyle c) x y w h]\<rparr>"

definition drawImage :: "bitmap \<Rightarrow> DrawParams \<Rightarrow> canvas \<Rightarrow> canvas" where
  "drawImage b d c =
    c\<lparr>c_ops := c_ops c @ [DrawImage b (sx d) (sy d) (sw d) (sh d) (dx d) (dy d) (dw d) (dh d)]\<rparr>"

definition isMimeSupportedByCanvas :: "env \<Rightarrow> string \<Rightarrow> bool" where
  "isMimeSupportedByCanvas e m =
    (if \<not> getContext2d e then False
     else toBlob e (fillRect 0 0 1 1 (createCanvas 1 1)) m None \<noteq> None)"

definition canvasToBlobSafe :: "env \<Rightarrow> canvas \<Rightarrow> string \<Rightarrow> real \<Rightarrow> error + (blob \<times> string)" where
  "canvasToBlobSafe e c requestedMime quality01 =
    (let supported = isMimeSupportedByCanvas e requestedMime;
         finalMime = (if supported then requestedMime else ''image/png'')
     in case toBlob e c finalMime (Some quality01) of
          None \<Rightarrow>
            (case toBlob e c ''image/png'' None of
               None \<Rightarrow> Inl (Error ''Failed to encode the image.'')
             | Some fallback \<Rightarrow> Inr (fallback, ''image/png''))
        | Some b \<Rightarrow> Inr (b, finalMime))"

section \<open>Rendering: \<^verbatim>\<open>renderAndEncode\<close>\<close>

text \<open>
  The upscaling guard at the head of \<^verbatim>\<open>renderAndEncode\<close>: the pair
  \<^verbatim>\<open>(safeTargetW, safeTargetH)\<close> that is handed to \<^verbatim>\<open>computeTargetSize\<close>.
\<close>

definition safeTarget :: "bool \<Rightarrow> int \<Rightarrow> int \<Rightarrow> int \<Rightarrow> int option \<Rightarrow> int \<times> int option" where
  "safeTarget allowEnlarge srcW srcH targetW targetH =
    (if \<not> allowEnlarge then
       (min targetW srcW, (case targetH of None \<Rightarrow> None | Some h \<Rightarrow> Some (min h srcH)))
     else (targetW, targetH))"

record RenderResult =
  r_blob :: blob
  r_mime :: string
  r_outW :: int
  r_outH :: int

text \<open>
  \<^verbatim>\<open>renderAndEncode\<close> returns \<^verbatim>\<open>{blob, mime, outW, outH}\<close> or throws; the model returns the
  canvas it painted as well, so that the drawing commands can be stated.
\<close>

definition renderAndEncode ::
  "env \<Rightarrow> bitmap \<Rightarrow> string \<Rightarrow> string \<Rightarrow> int \<Rightarrow> int option \<Rightarrow> Mode \<Rightarrow> Format \<Rightarrow> int \<Rightarrow> bool
    \<Rightarrow> error + (RenderResult \<times> canvas)" where
  "renderAndEncode e bm inputName inputMime targetW targetH mode outputFormat qualityScale allowEnlarge =
    (let srcW = bm_width bm;
         srcH = bm_height bm;
         (safeTargetW, safeTargetH) = safeTarget allowEnlarge srcW srcH targetW targetH;
         requestedMime = pickOutputMime inputMime outputFormat;
         layout = computeTargetSize srcW srcH safeTargetW safeTargetH mode;
         c0 = createCanvas (outW layout) (outH layout)
     in if \<not> getContext2d e then Inl (Error ''Canvas is not supported in this browser.'')
        else
          (let mustPaintWhite = (mode = Pad \<or> requestedMime = ''image/jpeg'');
               c1 = (if mustPaintWhite
                     then fillRect 0 0 (outW layout) (outH layout) (c0\<lparr>c_fillStyle := WHITE_BG\<rparr>)
                     else c0);
               c2 = drawImage bm (draw layout) c1;
               q = mapQuality01 qualityScale
           in case canvasToBlobSafe e c2 requestedMime q of
                Inl err \<Rightarrow> Inl err
              | Inr (b, m) \<Rightarrow>
                  Inr (\<lparr>r_blob = b, r_mime = m, r_outW = outW layout, r_outH = outH layout\<rparr>, c2)))"

section \<open>Batches: \<^verbatim>\<open>processFilesInBatches\<close>\<close>

record Options =
  o_width :: int
  o_height :: "int option"
  o_mode :: Mode
  o_format :: Format
  o_qualityScale :: int
  o_allowEnlarge :: bool

text \<open>
  A processed item. Of the fields of the source, \<^verbatim>\<open>id\<close> (a random identifier),
  \<^verbatim>\<open>previewUrl\<close> (an object URL) and \<^verbatim>\<open>info\<close> (a size label for the page) are left out.
\<close>

record ProcessedItem =
  it_filename :: string
  it_mime :: string
  it_blob :: blob


text \<open>
  The body of the callback that \<^verbatim>\<open>batch.map\<close> runs for one file, after its call of
  \<^verbatim>\<open>onProgress\<close>: decode, render and encode, name the result. The \<^verbatim>\<open>finally\<close> block
  that closes the bitmap changes neither the result nor the error and is left out.
\<close>

definition processFile :: "env \<Rightarrow> Options \<Rightarrow> File \<Rightarrow> error + ProcessedItem" where
  "processFile e options f =
    (case createImageBitmap e f of
       None \<Rightarrow> Inl DecodeError
     | Some bm \<Rightarrow>
         (case renderAndEncode e bm (f_name f) (f_type f) (o_width options) (o_height options)
                 (o_mode options) (o_format options) (o_qualityScale options)
                 (o_allowEnlarge options) of
            Inl err \<Rightarrow> Inl err
          | Inr (r, c) \<Rightarrow>
              (let ext = extFromMime (r_mime r);
                   filename = baseNameOf (f_name f) @ ''_'' @ showInt (r_outW r) @ ''x''
                              @ showInt (r_outH r) @ ''.'' @ ext
               in Inr \<lparr>it_filename = filename, it_mime = r_mime r, it_blob = r_blob r\<rparr>)))"





subsection \<open>The batching contract in the words of the specification\<close>






section \<open>The server route: \<^verbatim>\<open>POST\<close> of \<^verbatim>\<open>src/app/api/resize/route.ts\<close>\<close>

definition MAX_FILES :: nat where
  "MAX_FILES = 20"

definition MAX_SIZE_PER_FILE :: nat where
  "MAX_SIZE_PER_FILE = 15 * 1024 * 1024"

definition ALLOWED_MIMES :: "string list" where
  "ALLOWED_MIMES = [''image/jpeg'', ''image/png'', ''image/webp'', ''image/avif'']"

text \<open>
  The fields of the multipart form. A text field is \<open>None\<close> when \<^verbatim>\<open>form.get\<close> returns
  \<^verbatim>\<open>null\<close>. For a numeric field the model starts from the number that the schema's
  coercion \<^verbatim>\<open>Number(v)\<close> yields: \<open>NaN\<close> stands for every value that is not a finite
  number. Width and height pass through \<^verbatim>\<open>emptyToUndefined\<close> first, so they are \<open>None\<close>
  for an empty or missing field.
\<close>

datatype jsnum = NaN | Num real

record Form =
  form_width :: "jsnum option"
  form_height :: "jsnum option"
  form_mode :: "string option"
  form_format :: "string option"
  form_qualityScale :: jsnum
  form_download :: "string option"
  form_allowEnlarge :: "string option"
  form_files :: "File list"

text \<open>\<^verbatim>\<open>z.coerce.number().int().min(lo).max(hi)\<close> on a coerced number.\<close>

definition intInRange :: "int \<Rightarrow> int \<Rightarrow> jsnum \<Rightarrow> int option" where
  "intInRange lo hi v =
    (case v of
       NaN \<Rightarrow> None
     | Num r \<Rightarrow>
         if r = of_int \<lfloor>r\<rfloor> \<and> of_int lo \<le> r \<and> r \<le> of_int hi then Some \<lfloor>r\<rfloor> else None)"

definition lowerChar :: "char \<Rightarrow> char" where
  "lowerChar c =
    (case map_of (zip ''ABCDEFGHIJKLMNOPQRSTUVWXYZ'' ''abcdefghijklmnopqrstuvwxyz'') c of
       None \<Rightarrow> c
     | Some l \<Rightarrow> l)"

definition parseBool :: "string option \<Rightarrow> bool" where
  "parseBool v = (case v of None \<Rightarrow> False | Some s \<Rightarrow> map lowerChar s = ''true'')"

definition parseMode :: "string \<Rightarrow> Mode option" where
  "parseMode s =
    (if s = ''inside'' then Some Inside
     else if s = ''cover'' then Some Cover
     else if s = ''pad'' then Some Pad
     else if s = ''fill'' then Some Fill
     else None)"

datatype Download = Zip | Json

definition parseDownload :: "string \<Rightarrow> Download option" where
  "parseDownload s =
    (if s = ''zip'' then Some Zip else if s = ''json'' then Some Json else None)"

record Parsed =
  pd_width :: int
  pd_height :: "int option"
  pd_mode :: Mode
  pd_format :: "string option"
  pd_qualityScale :: int
  pd_download :: Download
  pd_allowEnlarge :: bool

text \<open>
  \<^verbatim>\<open>schema.safeParse\<close>: every field is checked, and the fields that fail are collected
  (Zod reports all issues at once). Of an issue the model keeps the name of its field.
\<close>

definition schema :: "Form \<Rightarrow> string list + Parsed" where
  "schema form =
    (let w = (case form_width form of None \<Rightarrow> None | Some v \<Rightarrow> intInRange 1 8000 v);
         hOk = (case form_height form of None \<Rightarrow> True | Some v \<Rightarrow> intInRange 1 8000 v \<noteq> None);
         h = (case form_height form of None \<Rightarrow> None | Some v \<Rightarrow> intInRange 1 8000 v);
         m = (case form_mode form of None \<Rightarrow> Some Inside | Some s \<Rightarrow> parseMode s);
         fOk = (case form_format form of
                  None \<Rightarrow> True
                | Some s \<Rightarrow> s \<in> set [''jpeg'', ''png'', ''webp'', ''avif'']);
         q = intInRange 1 5 (form_qualityScale form);
         d = (case form_download form of None \<Rightarrow> Some Zip | Some s \<Rightarrow> parseDownload s);
         issues = (if w = None then [''width''] else [])
                @ (if hOk then [] else [''height''])
                @ (if m = None then [''mode''] else [])
                @ (if fOk then [] else [''format''])
                @ (if q = None then [''qualityScale''] else [])
                @ (if d = None then [''download''] else [])
     in if issues \<noteq> [] then Inl issues
        else Inr \<lparr>pd_width = the w, pd_height = h, pd_mode = the m,
                  pd_format = form_format form, pd_qualityScale = the q,
                  pd_download = the d,
                  pd_allowEnlarge = parseBool (form_allowEnlarge form)\<rparr>)"

definition mapQuality :: "int \<Rightarrow> int" where
  "mapQuality scale =
    (if scale = 1 then 40
     else if scale = 2 then 60
     else if scale = 3 then 75
     else if scale = 4 then 85
     else if scale = 5 then 92
     else 75)"

definition outputExtension :: "string option \<Rightarrow> string \<Rightarrow> string" where
  "outputExtension format inputMime =
    (case format of
       Some f \<Rightarrow> (if f = ''jpeg'' then ''jpg'' else f)
     | None \<Rightarrow>
         if inputMime = ''image/jpeg'' then ''jpg''
         else if inputMime = ''image/png'' then ''png''
         else if inputMime = ''image/webp'' then ''webp''
         else if inputMime = ''image/avif'' then ''avif''
         else ''png'')"

definition outputMimeFromExt :: "string \<Rightarrow> string" where
  "outputMimeFromExt ext = (if ext = ''jpg'' then ''image/jpeg'' else ''image/'' @ ext)"

text \<open>
  The sharp pipeline built for one file. sharp itself is a library: what
  \<^verbatim>\<open>pipeline.toBuffer()\<close> returns for a pipeline is a parameter of the route (\<open>None\<close> when
  it throws).
\<close>

datatype Fit = FitInside | FitCover | FitFill | FitContain

datatype Encoder = EncJpeg int | EncPng int | EncWebp int | EncAvif int

record Pipeline =
  pl_input :: "nat list"
  pl_limitInputPixels :: nat
  pl_width :: int
  pl_height :: "int option"
  pl_fit :: Fit
  pl_position :: string
  pl_background :: string
  pl_withoutEnlargement :: bool
  pl_flatten :: "string option"
  pl_encoder :: "Encoder option"

definition DEFAULT_BACKGROUND :: string where
  "DEFAULT_BACKGROUND = ''#ffffff''"

definition buildPipeline :: "Parsed \<Rightarrow> File \<Rightarrow> Pipeline" where
  "buildPipeline p f =
    (let encoderQuality = mapQuality (pd_qualityScale p);
         fit = (if pd_mode p = Inside then FitInside
                else if pd_mode p = Cover then FitCover
                else if pd_mode p = Fill then FitFill
                else FitContain);
         ext = outputExtension (pd_format p) (f_type f)
     in \<lparr>pl_input = f_data f, pl_limitInputPixels = 80000000,
         pl_width = pd_width p, pl_height = pd_height p, pl_fit = fit,
         pl_position = ''center'', pl_background = DEFAULT_BACKGROUND,
         pl_withoutEnlargement = (\<not> pd_allowEnlarge p),
         pl_flatten = (if ext = ''jpg'' then Some DEFAULT_BACKGROUND else None),
         pl_encoder = (if ext = ''jpg'' then Some (EncJpeg encoderQuality)
                       else if ext = ''png'' then Some (EncPng 9)
                       else if ext = ''webp'' then Some (EncWebp encoderQuality)
                       else if ext = ''avif'' then Some (EncAvif encoderQuality)
                       else None)\<rparr>)"

record Output =
  out_filename :: string
  out_mime :: string
  out_buffer :: "nat list"

text \<open>
  The responses of the route: the 400 of a schema failure with the failing fields, a 400
  with a message, the zip download (its attachment name and the entries handed to the
  archive, which is taken to be written without an error), the JSON preview, and the 500
  of the \<^verbatim>\<open>catch\<close> block.
\<close>

datatype Response =
    ValidationError "string list"
  | BadRequest string
  | ZipResponse string "Output list"
  | JsonItems "Output list"
  | ServerError string


definition outName :: "Parsed \<Rightarrow> File \<Rightarrow> string" where
  "outName p f =
    baseNameOf (f_name f) @ ''_'' @ showInt (pd_width p) @ ''x''
    @ (case pd_height p of None \<Rightarrow> ''auto'' | Some h \<Rightarrow> showInt h)
    @ ''.'' @ outputExtension (pd_format p) (f_type f)"

text \<open>
  The loop \<^verbatim>\<open>for (const file of files)\<close>. It ends with a response (an early
  \<^verbatim>\<open>return\<close>), with an exception, or with the results. Beside the outcome the model
  returns the files that were handed to sharp, in order: the decode work done.
\<close>

datatype Outcome = Returned Response | Thrown | Completed "Output list"

fun fileLoop ::
  "(Pipeline \<Rightarrow> nat list option) \<Rightarrow> Parsed \<Rightarrow> File list \<Rightarrow> Output list \<Rightarrow> File list
    \<Rightarrow> Outcome \<times> File list" where
  "fileLoop toBuffer p [] results decoded = (Completed results, decoded)"
| "fileLoop toBuffer p (f # fs) results decoded =
    (if f_type f \<notin> set ALLOWED_MIMES then
       (Returned (BadRequest (''Unsupported file type: '' @ f_type f)), decoded)
     else if f_size f > MAX_SIZE_PER_FILE then
       (Returned (BadRequest (''File too large: '' @ f_name f @ ''. Max is 15MB per file.'')),
        decoded)
     else
       (case toBuffer (buildPipeline p f) of
          None \<Rightarrow> (Thrown, decoded @ [f])
        | Some outBuffer \<Rightarrow>
            fileLoop toBuffer p fs
              (results @ [\<lparr>out_filename = outName p f,
                            out_mime = outputMimeFromExt (outputExtension (pd_format p) (f_type f)),
                            out_buffer = outBuffer\<rparr>])
              (decoded @ [f])))"

text \<open>
  \<^verbatim>\<open>POST(request)\<close>. The form is \<open>None\<close> when \<^verbatim>\<open>request.formData()\<close> throws.
\<close>

definition POST :: "(Pipeline \<Rightarrow> nat list option) \<Rightarrow> Form option \<Rightarrow> Response \<times> File list" where
  "POST toBuffer request =
    (case request of
       None \<Rightarrow> (ServerError ''Failed to resize images.'', [])
     | Some form \<Rightarrow>
         (case schema form of
            Inl issues \<Rightarrow> (ValidationError issues, [])
          | Inr p \<Rightarrow>
              (let files = form_files form
               in if length files = 0 then
                    (BadRequest ''No images received. Please attach at least one file.'', [])
                  else if length files > MAX_FILES then
                    (BadRequest (''Too many files. Max is '' @ showNat MAX_FILES @ '' per batch.''), [])
                  else
                    (case fileLoop toBuffer p files [] [] of
                       (Returned r, decoded) \<Rightarrow> (r, decoded)
                     | (Thrown, decoded) \<Rightarrow> (ServerError ''Failed to resize images.'', decoded)
                     | (Completed results, decoded) \<Rightarrow>
                         if pd_download p = Zip then
                           (ZipResponse
                              (''images_'' @ showInt (pd_width p) @ ''x''
                               @ (case pd_height p of None \<Rightarrow> ''auto'' | Some h \<Rightarrow> showInt h)
                               @ ''.zip'')
                              results, decoded)
                         else (JsonItems results, decoded)))))"

text \<open>A file that passes the two checks at the head of the loop.\<close>

definition fileValid :: "File \<Rightarrow> bool" where
  "fileValid f = (f_type f \<in> set ALLOWED_MIMES \<and> f_size f \<le> MAX_SIZE_PER_FILE)"

section \<open>An example browser\<close>

text \<open>
  A browser for the concrete runs below: it hands out 2D contexts, encodes every MIME type
  but \<^verbatim>\<open>image/webp\<close>, and decodes every non-empty file to a 1600x900 bitmap.
\<close>

definition exampleEnv :: env where
  "exampleEnv =
    \<lparr>getContext2d = True,
     toBlob = (\<lambda>c m q. if m = ''image/webp'' then None else Some (Blob [])),
     createImageBitmap =
       (\<lambda>f. if f_data f = [] then None else Some \<lparr>bm_width = 1600, bm_height = 900\<rparr>)\<rparr>"

definition exampleFile :: "string \<Rightarrow> nat list \<Rightarrow> File" where
  "exampleFile n bytes = \<lparr>f_name = n, f_type = ''image/png'', f_size = length bytes, f_data = bytes\<rparr>"

definition exampleOptions :: "Format \<Rightarrow> Options" where
  "exampleOptions fmt =
    \<lparr>o_width = 800, o_height = None, o_mode = Inside, o_format = fmt, o_qualityScale = 3,
     o_allowEnlarge = False\<rparr>"

text \<open>
  A form with width 800 and every other field left out, and a stand-in for sharp that
  fails on empty input and returns its input otherwise.
\<close>

definition exampleForm :: "File list \<Rightarrow> Form" where
  "exampleForm files =
    \<lparr>form_width = Some (Num 800), form_height = None, form_mode = None, form_format = None,
     form_qualityScale = Num 3, form_download = None, form_allowEnlarge = None,
     form_files = files\<rparr>"

definition exampleSharp :: "Pipeline \<Rightarrow> nat list option" where
  "exampleSharp pl = (if pl_input pl = [] then None else Some (pl_input pl))"

section \<open>Rounding a quotient of integers\<close>

lemma js_round_div:
  assumes "0 < b"
  shows "js_round (of_int a / of_int b) = (2 * a + b) div (2 * b)"
proof -
  have "(of_int a / of_int b + 1 / 2 :: real) = of_int (2 * a + b) / of_int (2 * b)"
    using assms by (simp add: field_simps)
  then show ?thesis
    unfolding js_round_def by (simp only: floor_divide_of_int_eq)
qed

lemma js_round_of_int: "js_round (of_int n) = n"
  unfolding js_round_def by linarith

lemma js_round_mono: "x \<le> y \<Longrightarrow> js_round x \<le> js_round y"
  unfolding js_round_def by (simp add: floor_mono)

lemma js_round_half: "js_round (of_int n / 2) = (n + 1) div 2"
proof -
  have "js_round (of_int n / of_int 2) = (2 * n + 2) div (2 * 2)"
    by (rule js_round_div) simp
  then show ?thesis by simp
qed

lemma js_round_pin: "of_int (js_round x) \<le> x + 1 / 2" "x - 1 / 2 < of_int (js_round x)"
  unfolding js_round_def by linarith+

lemma js_round_nonneg: "0 \<le> x \<Longrightarrow> 0 \<le> js_round x"
  unfolding js_round_def by linarith

lemma max_round_pin:
  "1 \<le> max 1 (js_round x)"
  "x - 1 / 2 < of_int (max 1 (js_round x))"
  "of_int (max 1 (js_round x)) \<le> max 1 (x + 1 / 2)"
  using js_round_pin [of x] by (simp_all add: max_def)

lemma max_round_close:
  assumes "\<bar>x - p\<bar> < e"
  shows "p - 1 / 2 - e < of_int (max 1 (js_round x))"
    and "of_int (max 1 (js_round x)) \<le> max 1 (p + 1 / 2 + e)"
proof -
  have "x - 1 / 2 < of_int (max 1 (js_round x))" "of_int (max 1 (js_round x)) \<le> max 1 (x + 1 / 2)"
    by (rule max_round_pin)+
  with assms show "p - 1 / 2 - e < of_int (max 1 (js_round x))"
    and "of_int (max 1 (js_round x)) \<le> max 1 (p + 1 / 2 + e)"
    by linarith+
qed

lemma centre_bounds:
  fixes a b :: int
  assumes "0 \<le> b" and "b \<le> a"
  shows "0 \<le> (a - b + 1) div 2" and "(a - b + 1) div 2 + b \<le> a"
  using assms by linarith+

section \<open>Double rounding\<close>

text \<open>
  The facts about \<open>fl\<close> that the geometry needs: the exponent found by \<open>expo\<close> is the right
  one, the relative error of \<open>fl\<close> is at most \<open>2 ^ - 53\<close>, \<open>fl\<close> is monotone, and integers
  below \<open>2 ^ 53\<close> in absolute value and their halves are doubles.
\<close>

lemma blen_bounds: "0 < n \<Longrightarrow> \<exists>b. blen n = Suc b \<and> 2 ^ b \<le> n \<and> n < 2 ^ Suc b"
proof (induction n rule: blen.induct)
  case (1 n)
  show ?case
  proof (cases "n div 2 = 0")
    case True
    with "1.prems" have n: "n = Suc 0" by linarith
    have "blen (Suc 0) = Suc 0"
      by (simp add: blen.simps [of "Suc 0"] blen.simps [of 0])
    then show ?thesis
      unfolding n by (intro exI [of _ 0]) simp
  next
    case False
    with 1 obtain b where b: "blen (n div 2) = Suc b" "2 ^ b \<le> n div 2" "n div 2 < 2 ^ Suc b"
      by auto
    have "blen n = Suc (Suc b)"
      using "1.prems" b(1) by (subst blen.simps) simp
    moreover have "2 ^ Suc b \<le> n"
      using b(2) by simp
    moreover have "n < 2 ^ Suc (Suc b)"
      using b(3) by simp
    ultimately show ?thesis by blast
  qed
qed

lemma p2_less_iff: "(2::real) powi a < 2 powi b \<longleftrightarrow> a < b"
proof
  assume l: "(2::real) powi a < 2 powi b"
  show "a < b"
  proof (rule ccontr)
    assume "\<not> a < b"
    then have "b \<le> a" by simp
    then have "(2::real) powi b \<le> 2 powi a"
      by (intro power_int_increasing) simp_all
    with l show False by simp
  qed
next
  assume "a < b"
  then show "(2::real) powi a < 2 powi b"
    by (intro power_int_strict_increasing) simp_all
qed

lemma p2_add: "(2::real) powi (a + b) = 2 powi a * 2 powi b"
  by (rule power_int_add) simp

lemma p2_cancel: "(2::real) powi (- a) * 2 powi a = 1"
  using p2_add [of "- a" a] by simp

lemma expo_bounds:
  assumes "0 < x"
  shows "2 powi expo x \<le> x" and "x < 2 powi (expo x + 1)"
proof -
  have "2 powi expo x \<le> x \<and> x < 2 powi (expo x + 1)"
  proof (cases "1 \<le> x")
    case True
    then have "0 < nat \<lfloor>x\<rfloor>" by simp
    from blen_bounds [OF this] obtain b where
      b: "blen (nat \<lfloor>x\<rfloor>) = Suc b" "2 ^ b \<le> nat \<lfloor>x\<rfloor>" "nat \<lfloor>x\<rfloor> < 2 ^ Suc b"
      by blast
    have e: "expo x = int b"
      using True b(1) by (simp add: expo_def)
    have fl0: "0 \<le> \<lfloor>x\<rfloor>" using True by simp
    have "(2::int) ^ b \<le> \<lfloor>x\<rfloor>"
      using b(2) fl0 by (simp add: le_nat_iff)
    then have "(of_int ((2::int) ^ b) :: real) \<le> of_int \<lfloor>x\<rfloor>"
      by (simp only: of_int_le_iff)
    moreover have "(of_int ((2::int) ^ b) :: real) = 2 ^ b"
      by simp
    ultimately have lo: "(2::real) ^ b \<le> x"
      using of_int_floor_le [of x] by linarith
    have "\<lfloor>x\<rfloor> < (2::int) ^ Suc b"
      using b(3) fl0 by (simp add: nat_less_iff)
    then have "\<lfloor>x\<rfloor> + 1 \<le> (2::int) ^ Suc b" by simp
    then have "(of_int (\<lfloor>x\<rfloor> + 1) :: real) \<le> of_int ((2::int) ^ Suc b)"
      by (simp only: of_int_le_iff)
    moreover have "(of_int ((2::int) ^ Suc b) :: real) = 2 ^ Suc b"
      by simp
    moreover have "x < of_int (\<lfloor>x\<rfloor> + 1)"
      by linarith
    ultimately have hi: "x < (2::real) ^ Suc b"
      by linarith
    have "int b + 1 = int (Suc b)"
      by simp
    then have "(2::real) powi (int b + 1) = 2 ^ Suc b"
      by (simp only: power_int_of_nat)
    with lo hi show ?thesis
      by (simp add: e)
  next
    case False
    with assms have y: "1 < 1 / x" by simp
    define c where "c = \<lceil>1 / x\<rceil>"
    have c2: "2 \<le> c" unfolding c_def using y by linarith
    then have "0 < nat (c - 1)" by simp
    from blen_bounds [OF this] obtain b where
      b: "blen (nat (c - 1)) = Suc b" "2 ^ b \<le> nat (c - 1)" "nat (c - 1) < 2 ^ Suc b"
      by blast
    have e: "expo x = - int (Suc b)"
      using False b(1) by (simp add: expo_def c_def)
    have "(2::int) ^ b \<le> c - 1"
      using b(2) c2 by (simp add: le_nat_iff)
    then have "(of_int ((2::int) ^ b) :: real) \<le> of_int (c - 1)"
      by (simp only: of_int_le_iff)
    moreover have "(of_int ((2::int) ^ b) :: real) = 2 ^ b"
      by simp
    moreover have "of_int (c - 1) < 1 / x"
      unfolding c_def by linarith
    ultimately have "(2::real) ^ b < 1 / x" by linarith
    then have hi: "x < 1 / 2 ^ b"
      using assms by (simp add: field_simps)
    have "c - 1 < (2::int) ^ Suc b"
      using b(3) c2 by (simp add: nat_less_iff)
    then have "c \<le> (2::int) ^ Suc b" by simp
    then have "(of_int c :: real) \<le> of_int ((2::int) ^ Suc b)"
      by (simp only: of_int_le_iff)
    moreover have "(of_int ((2::int) ^ Suc b) :: real) = 2 ^ Suc b"
      by simp
    moreover have "1 / x \<le> of_int c"
      unfolding c_def by linarith
    ultimately have "1 / x \<le> (2::real) ^ Suc b" by linarith
    then have lo: "1 / 2 ^ Suc b \<le> x"
      using assms by (simp add: field_simps)
    have p1: "(2::real) powi (- int (Suc b)) = 1 / 2 ^ Suc b"
      by (simp add: power_int_minus_divide del: power_Suc of_nat_Suc)
    have p2: "(2::real) powi (- int (Suc b) + 1) = 1 / 2 ^ b"
      by (simp add: power_int_minus_divide)
    from lo hi show ?thesis
      unfolding e p1 p2 by simp
  qed
  then show "2 powi expo x \<le> x" and "x < 2 powi (expo x + 1)"
    by simp_all
qed

lemma expo_unique:
  assumes "2 powi k \<le> x" and "x < 2 powi (k + 1)"
  shows "expo x = k"
proof -
  have "(0::real) < 2 powi k"
    by simp
  with assms(1) have pos: "0 < x"
    by linarith
  note b = expo_bounds [OF pos]
  have "(2::real) powi k < 2 powi (expo x + 1)"
    using assms(1) b(2) by linarith
  then have 1: "k < expo x + 1" by (simp only: p2_less_iff)
  have "(2::real) powi expo x < 2 powi (k + 1)"
    using assms(2) b(1) by linarith
  then have 2: "expo x < k + 1" by (simp only: p2_less_iff)
  from 1 2 show ?thesis by simp
qed

lemma roundEven_near: "\<bar>of_int (roundEven m) - m\<bar> \<le> 1 / 2"
  unfolding roundEven_def Let_def by (auto simp: abs_le_iff)

lemma roundEven_of_int: "roundEven (of_int j) = j"
  by (simp add: roundEven_def)

lemma fl_pos_def:
  assumes "0 < x"
  shows "fl x = of_int (roundEven (x * 2 powi (- (expo x - 52)))) * 2 powi (expo x - 52)"
  using assms by (simp add: fl_def Let_def)

lemma fl_minus: "fl (- x) = - fl x"
  by (simp add: fl_def Let_def)

lemma fl_zero: "fl 0 = 0"
  by (simp add: fl_def)

lemma fl_error:
  assumes "0 < x"
  shows "\<bar>fl x - x\<bar> \<le> x / 2 ^ 53"
proof -
  define e where "e = expo x - 52"
  define m where "m = x * 2 powi (- e)"
  have x: "x = m * 2 powi e"
    unfolding m_def using p2_cancel [of e] by (simp add: mult.assoc)
  have "fl x - x = (of_int (roundEven m) - m) * 2 powi e"
    unfolding fl_pos_def [OF assms] e_def [symmetric] m_def [symmetric]
    using x by (simp add: algebra_simps)
  then have "\<bar>fl x - x\<bar> = \<bar>of_int (roundEven m) - m\<bar> * 2 powi e"
    by (simp add: abs_mult)
  also have "\<dots> \<le> 1 / 2 * 2 powi e"
    using roundEven_near [of m] by (intro mult_right_mono) simp_all
  also have "\<dots> \<le> x / 2 ^ 53"
  proof -
    have "(2::real) powi expo x = 2 powi e * 2 powi 52"
      unfolding e_def using p2_add [of "expo x - 52" 52] by simp
    then have "2 powi e * 2 ^ 52 \<le> x"
      using expo_bounds(1) [OF assms] by simp
    then show ?thesis by simp
  qed
  finally show ?thesis .
qed

lemma fl_bounds:
  assumes "0 < x"
  shows "x * (1 - 1 / 2 ^ 53) \<le> fl x" and "fl x \<le> x * (1 + 1 / 2 ^ 53)"
proof -
  have a: "x * (1 - 1 / 2 ^ 53) = x - x / 2 ^ 53" "x * (1 + 1 / 2 ^ 53) = x + x / 2 ^ 53"
    by (simp_all add: algebra_simps)
  from fl_error [OF assms] show "x * (1 - 1 / 2 ^ 53) \<le> fl x" and "fl x \<le> x * (1 + 1 / 2 ^ 53)"
    unfolding a by linarith+
qed

lemma fl_pos: "0 < x \<Longrightarrow> 0 < fl x"
proof -
  assume x: "0 < x"
  have "0 < x * (1 - 1 / 2 ^ 53)"
    using x by simp
  with fl_bounds(1) [OF x] show ?thesis by linarith
qed

lemma fl_dyadic_pos:
  assumes "0 < n" and "n < 2 ^ 53"
  shows "fl (of_int n * 2 powi k) = of_int n * 2 powi k"
proof -
  define x :: real where "x = of_int n * 2 powi k"
  have pos: "0 < x" unfolding x_def using assms(1) by simp
  define e where "e = expo x - 52"
  have "x < 2 ^ 53 * 2 powi k"
    unfolding x_def using assms(2)
    by (intro mult_strict_right_mono) simp_all
  also have "\<dots> = 2 powi (53 + k)"
    using p2_add [of 53 k] by simp
  finally have "(2::real) powi expo x < 2 powi (53 + k)"
    using expo_bounds(1) [OF pos] by linarith
  then have "expo x < 53 + k" by (simp only: p2_less_iff)
  then have ek: "0 \<le> k - e" by (simp add: e_def)
  have "x * 2 powi (- e) = of_int n * 2 powi (k - e)"
    unfolding x_def using p2_add [of k "- e"] by (simp add: mult.assoc)
  also have "\<dots> = of_int (n * 2 ^ nat (k - e))"
    using ek by (simp add: power_int_nonneg_exp)
  finally have m: "x * 2 powi (- e) = of_int (n * 2 ^ nat (k - e))" .
  have "fl x = of_int (n * 2 ^ nat (k - e)) * 2 powi e"
    unfolding fl_pos_def [OF pos] e_def [symmetric] m roundEven_of_int ..
  also have "\<dots> = x * 2 powi (- e) * 2 powi e"
    unfolding m ..
  also have "\<dots> = x"
    using p2_cancel [of e] by (simp add: mult.assoc)
  finally show ?thesis unfolding x_def .
qed

lemma fl_dyadic:
  assumes "\<bar>n\<bar> < 2 ^ 53"
  shows "fl (of_int n * 2 powi k) = of_int n * 2 powi k"
proof (cases n "0::int" rule: linorder_cases)
  case equal
  then show ?thesis by (simp add: fl_zero)
next
  case greater
  with assms show ?thesis by (intro fl_dyadic_pos) simp_all
next
  case less
  with assms have "fl (of_int (- n) * 2 powi k) = of_int (- n) * 2 powi k"
    by (intro fl_dyadic_pos) simp_all
  then show ?thesis
    using fl_minus [of "of_int n * 2 powi k"] by simp
qed

lemma fl_of_int: "\<bar>n\<bar> < 2 ^ 53 \<Longrightarrow> fl (of_int n) = of_int n"
  using fl_dyadic [of n 0] by simp

lemma fl_half: "\<bar>n\<bar> < 2 ^ 53 \<Longrightarrow> fl (of_int n / 2) = of_int n / 2"
  using fl_dyadic [of n "- 1"] by simp

lemma roundEven_mono: "a \<le> b \<Longrightarrow> roundEven a \<le> roundEven b"
proof -
  assume ab: "a \<le> b"
  have fa: "\<lfloor>a\<rfloor> \<le> roundEven a" "roundEven a \<le> \<lfloor>a\<rfloor> + 1"
    and fb: "\<lfloor>b\<rfloor> \<le> roundEven b"
    by (simp_all add: roundEven_def Let_def)
  show ?thesis
  proof (cases "\<lfloor>a\<rfloor> = \<lfloor>b\<rfloor>")
    case True
    with ab have "a - of_int \<lfloor>a\<rfloor> \<le> b - of_int \<lfloor>b\<rfloor>" by simp
    with True show ?thesis
      by (auto simp: roundEven_def Let_def)
  next
    case False
    with ab have "\<lfloor>a\<rfloor> < \<lfloor>b\<rfloor>"
      using floor_mono [OF ab] by linarith
    with fa fb show ?thesis by linarith
  qed
qed

lemma significand_bounds:
  assumes "0 < x"
  shows "2 ^ 52 \<le> x * 2 powi (- (expo x - 52))" and "x * 2 powi (- (expo x - 52)) < 2 ^ 53"
proof -
  have s: "(0::real) < 2 powi (- (expo x - 52))"
    by simp
  have a: "(2::real) powi expo x * 2 powi (- (expo x - 52)) = 2 ^ 52"
    using p2_add [of "expo x" "- (expo x - 52)"] by simp
  have b: "(2::real) powi (expo x + 1) * 2 powi (- (expo x - 52)) = 2 ^ 53"
    using p2_add [of "expo x + 1" "- (expo x - 52)"] by simp
  from mult_right_mono [OF expo_bounds(1) [OF assms] less_imp_le [OF s]]
  show "2 ^ 52 \<le> x * 2 powi (- (expo x - 52))"
    unfolding a .
  from mult_strict_right_mono [OF expo_bounds(2) [OF assms] s]
  show "x * 2 powi (- (expo x - 52)) < 2 ^ 53"
    unfolding b .
qed

lemma fl_binade:
  assumes "0 < x"
  shows "2 powi expo x \<le> fl x" and "fl x \<le> 2 powi (expo x + 1)"
proof -
  define e where "e = expo x - 52"
  define m where "m = x * 2 powi (- e)"
  note sb = significand_bounds [OF assms, folded e_def m_def]
  have "roundEven (of_int (2 ^ 52)) \<le> roundEven m"
    using sb(1) by (intro roundEven_mono) simp
  then have lo: "(2::real) ^ 52 \<le> of_int (roundEven m)"
    unfolding roundEven_of_int by (metis of_int_le_iff of_int_numeral of_int_power)
  have "roundEven m \<le> roundEven (of_int (2 ^ 53))"
    using sb(2) by (intro roundEven_mono) simp
  then have hi: "of_int (roundEven m) \<le> (2::real) ^ 53"
    unfolding roundEven_of_int by (metis of_int_le_iff of_int_numeral of_int_power)
  have f: "fl x = of_int (roundEven m) * 2 powi e"
    unfolding fl_pos_def [OF assms] e_def m_def ..
  have a: "(2::real) ^ 52 * 2 powi e = 2 powi expo x"
    using p2_add [of 52 e] by (simp add: e_def)
  have b: "(2::real) ^ 53 * 2 powi e = 2 powi (expo x + 1)"
    using p2_add [of 53 e] by (simp add: e_def add.commute)
  have pe: "(0::real) \<le> 2 powi e" by simp
  from mult_right_mono [OF lo pe] show "2 powi expo x \<le> fl x"
    unfolding f a .
  from mult_right_mono [OF hi pe] show "fl x \<le> 2 powi (expo x + 1)"
    unfolding f b .
qed

text \<open>Rounding to a double is monotone.\<close>

lemma fl_mono_pos:
  assumes "0 < x" and "x \<le> y"
  shows "fl x \<le> fl y"
proof -
  have y: "0 < y" using assms by simp
  have "(2::real) powi expo x < 2 powi (expo y + 1)"
    using expo_bounds(1) [OF assms(1)] assms(2) expo_bounds(2) [OF y] by linarith
  then have le: "expo x \<le> expo y"
    by (simp add: p2_less_iff)
  show ?thesis
  proof (cases "expo x = expo y")
    case True
    have "x * 2 powi (- (expo x - 52)) \<le> y * 2 powi (- (expo x - 52))"
      using assms(2) by (intro mult_right_mono) simp_all
    then have "roundEven (x * 2 powi (- (expo x - 52))) \<le> roundEven (y * 2 powi (- (expo x - 52)))"
      by (rule roundEven_mono)
    then have "(of_int (roundEven (x * 2 powi (- (expo x - 52)))) :: real)
        \<le> of_int (roundEven (y * 2 powi (- (expo x - 52))))"
      by (simp only: of_int_le_iff)
    then have "of_int (roundEven (x * 2 powi (- (expo x - 52)))) * 2 powi (expo x - 52)
        \<le> of_int (roundEven (y * 2 powi (- (expo x - 52)))) * (2::real) powi (expo x - 52)"
      by (intro mult_right_mono) simp_all
    then show ?thesis
      unfolding fl_pos_def [OF assms(1)] fl_pos_def [OF y] True [symmetric] .
  next
    case False
    with le have "expo x + 1 \<le> expo y" by simp
    then have "(2::real) powi (expo x + 1) \<le> 2 powi expo y"
      by (intro power_int_increasing) simp_all
    with fl_binade(2) [OF assms(1)] fl_binade(1) [OF y] show ?thesis
      by linarith
  qed
qed

lemma fl_min: "0 < x \<Longrightarrow> 0 < y \<Longrightarrow> min (fl x) (fl y) = fl (min x y)"
  using fl_mono_pos [of x y] fl_mono_pos [of y x] by (auto simp: min_def)

text \<open>
  \<^verbatim>\<open>Math.round\<close> of the double quotient of two positive integers is the rounding of the
  exact quotient, as long as the numerator is below \<open>2 ^ 52\<close>.
\<close>

lemma round_quotient_exact:
  assumes "0 < a" and "a < 2 ^ 52" and "0 < b"
  shows "js_round (fdiv (of_int a) (of_int b)) = js_round (of_int a / of_int b)"
proof -
  define q :: real where "q = of_int a / of_int b"
  define k where "k = js_round q"
  have A: "(0::real) < of_int a" "(of_int a :: real) < 2 ^ 52" and B: "(0::real) < of_int b"
    using assms by simp_all
  have q: "0 < q" unfolding q_def using A B by simp
  have qb: "q * of_int b = of_int a"
    unfolding q_def using B by simp
  have k1: "of_int k \<le> q + 1 / 2" and k2: "q + 1 / 2 < of_int k + 1"
    unfolding k_def js_round_def by linarith+
  have "1 \<le> b" using assms(3) by simp
  then have b1: "(1::real) \<le> of_int b" by simp
  have qa: "q \<le> of_int a"
    using A B b1 unfolding q_def by (simp add: field_simps)
  have err: "q / 2 ^ 53 < 1 / (2 * of_int b)"
  proof -
    have "q / 2 ^ 53 = of_int a / 2 ^ 52 / (2 * of_int b)"
      unfolding q_def by simp
    also have "\<dots> < 1 / (2 * of_int b)"
      using A B by (intro divide_strict_right_mono) simp_all
    finally show ?thesis .
  qed
  have e: "fl q - q \<le> q / 2 ^ 53" "q - fl q \<le> q / 2 ^ 53"
    using fl_error [OF q] by linarith+
  have up: "fl q + 1 / 2 < of_int k + 1"
  proof -
    from mult_strict_right_mono [OF k2 B]
    have "q * of_int b + 1 / 2 * of_int b < of_int k * of_int b + 1 * of_int b"
      by (simp only: distrib_right)
    then have "(of_int (2 * a) :: real) < of_int ((2 * k + 1) * b)"
      unfolding qb by (simp add: algebra_simps)
    then have "2 * a < (2 * k + 1) * b" by (simp only: of_int_less_iff)
    then have "2 * a + 1 \<le> (2 * k + 1) * b" by simp
    then have "(of_int (2 * a + 1) :: real) \<le> of_int ((2 * k + 1) * b)"
      by (simp only: of_int_le_iff)
    then have "(of_int (2 * a + 1) :: real) / (2 * of_int b)
        \<le> of_int ((2 * k + 1) * b) / (2 * of_int b)"
      using B by (intro divide_right_mono) simp_all
    moreover have "(of_int ((2 * k + 1) * b) :: real) / (2 * of_int b) = of_int k + 1 / 2"
      using B by (simp add: field_simps)
    moreover have "(of_int (2 * a + 1) :: real) / (2 * of_int b) = q + 1 / (2 * of_int b)"
      unfolding q_def using B by (simp add: add_divide_distrib)
    ultimately have "q + 1 / (2 * of_int b) \<le> of_int k + 1 / 2"
      by simp
    with e err show ?thesis by linarith
  qed
  have lo: "of_int k \<le> fl q + 1 / 2"
  proof (cases "(2 * k - 1) * b = 2 * a")
    case True
    then have "(of_int ((2 * k - 1) * b) :: real) = of_int (2 * a)" by simp
    then have qk: "q = of_int (2 * k - 1) / 2"
      using B unfolding q_def by (simp add: field_simps)
    have "of_int k \<le> of_int a + (1::real)"
      using k1 qa by linarith
    then have "k \<le> a + 1" by linarith
    moreover have "0 \<le> k"
      using q k2 by linarith
    ultimately have "\<bar>2 * k - 1\<bar> < 2 ^ 53"
      using assms(2) by simp
    from fl_half [OF this] show ?thesis
      unfolding qk by simp
  next
    case False
    from mult_right_mono [OF k1 less_imp_le [OF B]]
    have "of_int k * of_int b \<le> q * of_int b + 1 / 2 * of_int b"
      by (simp only: distrib_right)
    then have "(of_int ((2 * k - 1) * b) :: real) \<le> of_int (2 * a)"
      unfolding qb by (simp add: algebra_simps)
    then have "(2 * k - 1) * b \<le> 2 * a" by (simp only: of_int_le_iff)
    with False have "(2 * k - 1) * b + 1 \<le> 2 * a" by simp
    then have "(of_int ((2 * k - 1) * b + 1) :: real) \<le> of_int (2 * a)"
      by (simp only: of_int_le_iff)
    then have "(of_int ((2 * k - 1) * b + 1) :: real) / (2 * of_int b)
        \<le> of_int (2 * a) / (2 * of_int b)"
      using B by (intro divide_right_mono) simp_all
    moreover have "(of_int ((2 * k - 1) * b + 1) :: real) / (2 * of_int b)
        = of_int k - 1 / 2 + 1 / (2 * of_int b)"
      using B by (simp add: field_simps)
    moreover have "(of_int (2 * a) :: real) / (2 * of_int b) = q"
      unfolding q_def by simp
    ultimately have "of_int k - 1 / 2 + 1 / (2 * of_int b) \<le> q"
      by simp
    with e err show ?thesis by linarith
  qed
  from lo up have "js_round (fl q) = k"
    unfolding js_round_def by linarith
  then show ?thesis
    unfolding fdiv_def q_def [symmetric] k_def .
qed

text \<open>
  A product or quotient formed from an already rounded quotient is within a few units of
  relative error \<open>2 ^ - 53\<close> of the exact one, and \<^verbatim>\<open>Math.round\<close> of it lands on an integer
  that the exact value reaches up to that error.
\<close>

lemma js_round_fl_le:
  assumes "0 < x" and "0 < n" and "n < 2 ^ 31" and "x \<le> of_int n * (1 + 3 / 2 ^ 53)"
  shows "js_round (fl x) \<le> n"
proof -
  define N :: real where "N = of_int n"
  have N: "0 < N" "N < 2147483648"
    using assms(2,3) by (simp_all add: N_def)
  have x: "x \<le> N + 3 * N / 2 ^ 53"
    using assms(4) by (simp add: N_def algebra_simps)
  have "fl x - x \<le> x / 2 ^ 53"
    using fl_error [OF assms(1)] by linarith
  with x N have "fl x < N + 1 / 2"
    by simp
  then show ?thesis
    unfolding js_round_def N_def by linarith
qed

lemma js_round_fl_ge:
  assumes "0 < n" and "n < 2 ^ 31" and "of_int n * (1 - 3 / 2 ^ 53) \<le> x"
  shows "n \<le> js_round (fl x)"
proof -
  define N :: real where "N = of_int n"
  have N: "0 < N" "N < 2147483648"
    using assms(1,2) by (simp_all add: N_def)
  have x: "N - 3 * N / 2 ^ 53 \<le> x"
    using assms(3) by (simp add: N_def algebra_simps)
  with N have pos: "0 < x" by simp
  have "x - fl x \<le> x / 2 ^ 53"
    using fl_error [OF pos] by linarith
  with x N have "N - 1 / 2 < fl x"
    by simp
  then show ?thesis
    unfolding js_round_def N_def by linarith
qed

lemma fdiv_pos: "0 < s \<Longrightarrow> 0 < t \<Longrightarrow> 0 < fdiv (of_int t) (of_int s)"
  unfolding fdiv_def by (intro fl_pos) simp

lemma fdiv_times:
  assumes "0 < s" and "0 < t"
  shows "of_int s * fdiv (of_int t) (of_int s) \<le> of_int t * (1 + 1 / 2 ^ 53)"
    and "of_int t * (1 - 1 / 2 ^ 53) \<le> of_int s * fdiv (of_int t) (of_int s)"
proof -
  have S: "(0::real) < of_int s" using assms(1) by simp
  have q: "(0::real) < of_int t / of_int s" using assms by simp
  have c: "of_int s * (of_int t / of_int s * k) = of_int t * k" for k :: real
    using S by simp
  from mult_left_mono [OF fl_bounds(2) [OF q] less_imp_le [OF S]]
  show "of_int s * fdiv (of_int t) (of_int s) \<le> of_int t * (1 + 1 / 2 ^ 53)"
    unfolding fdiv_def c .
  from mult_left_mono [OF fl_bounds(1) [OF q] less_imp_le [OF S]]
  show "of_int t * (1 - 1 / 2 ^ 53) \<le> of_int s * fdiv (of_int t) (of_int s)"
    unfolding fdiv_def c .
qed

lemma fmul_fl_close:
  assumes "0 < s" and "0 < q"
  shows "\<bar>fl (s * fl q) - s * q\<bar> \<le> 3 * (s * q) / 2 ^ 53"
proof -
  define P where "P = s * q"
  define M where "M = s * fl q"
  define F where "F = fl M"
  have P: "0 < P" using assms by (simp add: P_def)
  have M: "0 < M" using assms fl_pos [OF assms(2)] by (simp add: M_def)
  have "s * (q * (1 - 1 / 2 ^ 53)) \<le> s * fl q" "s * fl q \<le> s * (q * (1 + 1 / 2 ^ 53))"
    using fl_bounds [OF assms(2)] assms(1) by (simp_all add: mult_left_mono)
  then have m: "P * (1 - 1 / 2 ^ 53) \<le> M" "M \<le> P * (1 + 1 / 2 ^ 53)"
    by (simp_all add: P_def M_def mult.assoc)
  have f: "M * (1 - 1 / 2 ^ 53) \<le> F" "F \<le> M * (1 + 1 / 2 ^ 53)"
    unfolding F_def using fl_bounds [OF M] by simp_all
  have "F - P \<le> 3 * P / 2 ^ 53" "P - F \<le> 3 * P / 2 ^ 53"
    using m f P by simp_all
  then have "\<bar>F - P\<bar> \<le> 3 * P / 2 ^ 53"
    by linarith
  then show ?thesis
    by (simp only: F_def M_def P_def)
qed

lemma fdiv_fl_close:
  assumes "0 < s" and "0 < q"
  shows "\<bar>fl (s / fl q) - s / q\<bar> \<le> 4 * (s / q) / 2 ^ 53"
proof -
  define E where "E = s / q"
  define Q where "Q = s / fl q"
  define F where "F = fl Q"
  have fq: "0 < fl q" by (rule fl_pos [OF assms(2)])
  have E: "0 < E" using assms by (simp add: E_def)
  have Q: "0 < Q" using assms fq by (simp add: Q_def)
  have eq: "Q * fl q = E * q"
    using assms fq by (simp add: Q_def E_def)
  have r: "Q * (q * k) = (Q * k) * q" for k :: real
    by simp
  have "Q * (q * (1 - 1 / 2 ^ 53)) \<le> Q * fl q" "Q * fl q \<le> Q * (q * (1 + 1 / 2 ^ 53))"
    using fl_bounds [OF assms(2)] Q by (simp_all add: mult_left_mono)
  then have "(Q * (1 - 1 / 2 ^ 53)) * q \<le> E * q" "E * q \<le> (Q * (1 + 1 / 2 ^ 53)) * q"
    unfolding eq r .
  then have m: "Q * (1 - 1 / 2 ^ 53) \<le> E" "E \<le> Q * (1 + 1 / 2 ^ 53)"
    using assms(2) by (simp_all only: mult_le_cancel_right_pos)
  have f: "Q * (1 - 1 / 2 ^ 53) \<le> F" "F \<le> Q * (1 + 1 / 2 ^ 53)"
    unfolding F_def using fl_bounds [OF Q] by simp_all
  have "F - E \<le> 4 * E / 2 ^ 53" "E - F \<le> 4 * E / 2 ^ 53"
    using m f E Q by simp_all
  then have "\<bar>F - E\<bar> \<le> 4 * E / 2 ^ 53"
    by linarith
  then show ?thesis
    by (simp only: F_def Q_def E_def)
qed

text \<open>
  The offsets \<^verbatim>\<open>Math.round((a - b) / 2)\<close> of two integers are computed without any rounding
  error: the difference and its half are doubles.
\<close>

lemma half_diff:
  assumes "\<bar>a - b\<bar> < 2 ^ 53"
  shows "js_round (fdiv (fsub (of_int a) (of_int b)) 2) = (a - b + 1) div 2"
proof -
  have "fl (of_int a - of_int b) = of_int (a - b)"
    using fl_of_int [OF assms] by simp
  moreover have "fl (of_int (a - b) / 2) = of_int (a - b) / 2"
    using fl_half [OF assms] .
  ultimately have "fdiv (fsub (of_int a) (of_int b)) 2 = of_int (a - b) / 2"
    unfolding fdiv_def fsub_def by (simp only:)
  then show ?thesis
    by (simp only: js_round_half)
qed

text \<open>
  The comparison of the two rounded ratios \<^verbatim>\<open>srcRatio > dstRatio\<close> decides as the exact
  ratios do when the dimensions are below \<open>2 ^ 26\<close>: two different quotients of such
  integers are further apart than the rounding can move them.
\<close>

lemma ratio_le_iff:
  assumes "0 < b" and "0 < d"
  shows "(of_int a / of_int b :: real) \<le> of_int c / of_int d \<longleftrightarrow> a * d \<le> c * b"
proof -
  have "(of_int a / of_int b :: real) \<le> of_int c / of_int d
      \<longleftrightarrow> (of_int (a * d) :: real) \<le> of_int (c * b)"
    using assms by (simp add: field_simps)
  then show ?thesis by (simp only: of_int_le_iff)
qed

lemma ratio_less_iff:
  assumes "0 < b" and "0 < d"
  shows "(of_int c / of_int d :: real) < of_int a / of_int b \<longleftrightarrow> c * b < a * d"
  using ratio_le_iff [OF assms, of a c] by (simp only: not_le [symmetric])

lemma ratio_compare:
  assumes "0 < a" and "a < 2 ^ 26" and "0 < b" and "0 < c" and "0 < d" and "d < 2 ^ 26"
  shows "fdiv (of_int a) (of_int b) > fdiv (of_int c) (of_int d) \<longleftrightarrow> a * d > c * b"
proof
  assume gt: "fdiv (of_int a) (of_int b) > fdiv (of_int c) (of_int d)"
  show "a * d > c * b"
  proof (rule ccontr)
    assume "\<not> a * d > c * b"
    then have "a * d \<le> c * b" by simp
    then have "(of_int a / of_int b :: real) \<le> of_int c / of_int d"
      using ratio_le_iff [OF assms(3,5)] by simp
    moreover have "(0::real) < of_int a / of_int b"
      using assms by simp
    ultimately have "fl (of_int a / of_int b) \<le> fl (of_int c / of_int d)"
      by (rule fl_mono_pos [rotated])
    with gt show False by (simp add: fdiv_def)
  qed
next
  assume gt: "a * d > c * b"
  define A :: real where "A = of_int (a * d)"
  define B :: real where "B = of_int (c * b)"
  define D :: real where "D = of_int b * of_int d"
  have D: "0 < D" using assms by (simp add: D_def)
  have "a * d < 2 ^ 26 * 2 ^ 26"
    using assms by (intro mult_strict_mono) simp_all
  then have "a * d < 4503599627370496" by simp
  then have A52: "A < 4503599627370496"
    unfolding A_def by linarith
  have "c * b + 1 \<le> a * d" using gt by simp
  then have AB: "B + 1 \<le> A"
    unfolding A_def B_def by linarith
  have "0 < c * b" using assms by simp
  then have B0: "0 < B" unfolding B_def by linarith
  have lin: "B * (1 + 1 / 2 ^ 53) < A * (1 - 1 / 2 ^ 53)"
    using AB A52 B0 by simp
  have x: "of_int a / of_int b = A / D"
    using assms by (simp add: A_def D_def)
  have y: "of_int c / of_int d = B / D"
    using assms by (simp add: B_def D_def)
  have py: "0 < B / D" using B0 D by simp
  have px: "0 < A / D" using B0 AB D by simp
  have "fl (B / D) \<le> (B / D) * (1 + 1 / 2 ^ 53)"
    by (rule fl_bounds(2) [OF py])
  also have "\<dots> = B * (1 + 1 / 2 ^ 53) / D" by simp
  also have "\<dots> < A * (1 - 1 / 2 ^ 53) / D"
    using lin D by (rule divide_strict_right_mono)
  also have "\<dots> = (A / D) * (1 - 1 / 2 ^ 53)" by simp
  also have "\<dots> \<le> fl (A / D)"
    by (rule fl_bounds(1) [OF px])
  finally show "fdiv (of_int a) (of_int b) > fdiv (of_int c) (of_int d)"
    unfolding fdiv_def x y .
qed

section \<open>Width-only resize\<close>

text \<open>
  Claim C5. For positive \<open>srcW\<close>, \<open>srcH\<close>, \<open>targetW\<close> and an absent target height,
  \<open>computeTargetSize\<close> returns \<open>outW = targetW\<close> and
  \<open>outH = max 1 (round (targetW * srcH / srcW))\<close> for every mode, and the draw maps the
  whole source rectangle onto the whole destination rectangle. The rounded quotient is also
  given in integer arithmetic. A 1600x900 source with target width 800 gives 800x450.
\<close>

theorem width_only_layout:
  assumes "0 < srcW" and "0 < srcH" and "0 < targetW"
  shows "outW (computeTargetSize srcW srcH targetW None mode) = targetW
    \<and> outH (computeTargetSize srcW srcH targetW None mode)
        = max 1 (js_round (of_int targetW * of_int srcH / of_int srcW))
    \<and> outH (computeTargetSize srcW srcH targetW None mode)
        = max 1 ((2 * targetW * srcH + srcW) div (2 * srcW))
    \<and> draw (computeTargetSize srcW srcH targetW None mode)
        = \<lparr>sx = 0, sy = 0, sw = srcW, sh = srcH, dx = 0, dy = 0,
           dw = outW (computeTargetSize srcW srcH targetW None mode),
           dh = outH (computeTargetSize srcW srcH targetW None mode)\<rparr>
    \<and> outW (computeTargetSize 1600 900 800 None mode) = 800
    \<and> outH (computeTargetSize 1600 900 800 None mode) = 450"
proof -
  have q: "js_round (of_int (targetW * srcH) / of_int srcW)
      = (2 * targetW * srcH + srcW) div (2 * srcW)"
    using js_round_div [OF assms(1), of "targetW * srcH"] by (simp add: mult.assoc)
  have e: "js_round (of_int (800 * 900) / of_int 1600) = 450"
    by (simp add: js_round_def)
  show ?thesis
    using q e by (simp add: computeTargetSize_def Let_def)
qed

theorem width_only_layout_witness:
  "outW (computeTargetSize 4 3 8 None Cover) = 8
    \<and> outH (computeTargetSize 4 3 8 None Cover) = 6
    \<and> draw (computeTargetSize 4 3 8 None Cover)
        = \<lparr>sx = 0, sy = 0, sw = 4, sh = 3, dx = 0, dy = 0, dw = 8, dh = 6\<rparr>"
  using width_only_layout [of 4 3 8 Cover] by simp

text \<open>
  Claim C10. The width-only output height is not bounded by the 8000 that validation imposes
  on the target dimensions: with enlargement allowed the guard leaves the target as it is,
  and a 100x8000 source with target width 8000 and no target height gives an output height
  of 640000, in every mode.
\<close>

theorem width_only_height_unbounded:
  "safeTarget True 100 8000 8000 None = (8000, None)
    \<and> outW (computeTargetSize 100 8000 8000 None mode) = 8000
    \<and> outH (computeTargetSize 100 8000 8000 None mode) = 640000
    \<and> outH (computeTargetSize 100 8000 8000 None mode) > 8000"
  by (simp add: computeTargetSize_def safeTarget_def Let_def js_round_def)

section \<open>Mode inside\<close>

text \<open>
  With \<open>x \<le> fdiv t s\<close> the rounded product \<open>fmul s x\<close> rounds to at most \<open>t\<close>, and the
  constraining axis, whose scale is \<open>fdiv t s\<close> itself, lands on \<open>t\<close> exactly.
\<close>

lemma fit_le:
  assumes "0 < s" and "0 < t" and "t < 2 ^ 31" and "0 < x" and "x \<le> fdiv (of_int t) (of_int s)"
  shows "max 1 (js_round (fmul (of_int s) x)) \<le> t"
proof -
  have S: "(0::real) < of_int s" using assms(1) by simp
  have T: "(0::real) < of_int t" using assms(2) by simp
  have "of_int s * x \<le> of_int s * fdiv (of_int t) (of_int s)"
    using assms(5) S by (intro mult_left_mono) simp_all
  with fdiv_times(1) [OF assms(1,2)] have "of_int s * x \<le> of_int t * (1 + 1 / 2 ^ 53)"
    by linarith
  also have "\<dots> \<le> of_int t * (1 + 3 / 2 ^ 53)"
    using T by (intro mult_left_mono) simp_all
  finally have "js_round (fl (of_int s * x)) \<le> t"
    using S assms(2,3,4) by (intro js_round_fl_le) simp_all
  then show ?thesis
    using assms(2) by (simp add: fmul_def)
qed

lemma fit_eq:
  assumes "0 < s" and "0 < t" and "t < 2 ^ 31"
  shows "max 1 (js_round (fmul (of_int s) (fdiv (of_int t) (of_int s)))) = t"
proof -
  have T: "(0::real) < of_int t" using assms(2) by simp
  have le: "max 1 (js_round (fmul (of_int s) (fdiv (of_int t) (of_int s)))) \<le> t"
    using assms fdiv_pos [OF assms(1,2)] by (intro fit_le) simp_all
  have "of_int t * (1 - 3 / 2 ^ 53) \<le> of_int t * (1 - 1 / 2 ^ 53 :: real)"
    using T by (intro mult_left_mono) simp_all
  with fdiv_times(2) [OF assms(1,2)]
  have "of_int t * (1 - 3 / 2 ^ 53) \<le> of_int s * fdiv (of_int t) (of_int s)"
    by linarith
  from js_round_fl_ge [OF assms(2,3) this]
  have "t \<le> max 1 (js_round (fmul (of_int s) (fdiv (of_int t) (of_int s))))"
    by (simp add: fmul_def)
  with le show ?thesis by (rule antisym)
qed

lemma fit_close:
  assumes "0 < s" and "t < 2 ^ 26" and "0 < q" and "of_int s * q \<le> of_int t"
  shows "\<bar>fmul (of_int s) (fl q) - of_int s * q\<bar> < 1 / 2 ^ 25"
proof -
  define P :: real where "P = of_int s * q"
  have s: "(0::real) < of_int s" using assms(1) by simp
  have P0: "0 < P" unfolding P_def by (rule mult_pos_pos [OF s assms(3)])
  have "(of_int t :: real) < 67108864" using assms(2) by simp
  with assms(4) have "P < 67108864" unfolding P_def by linarith
  then have "3 * P / 2 ^ 53 < 1 / 33554432"
    using P0 by simp
  moreover have "\<bar>fmul (of_int s) (fl q) - P\<bar> \<le> 3 * P / 2 ^ 53"
    unfolding P_def fmul_def by (rule fmul_fl_close [OF s assms(3)])
  ultimately have "\<bar>fmul (of_int s) (fl q) - P\<bar> < 1 / 33554432"
    by linarith
  then show ?thesis by (simp add: P_def)
qed

lemma inside_result:
  "computeTargetSize srcW srcH targetW (Some tH) Inside =
    (let scale = min (fdiv (of_int targetW) (of_int srcW)) (fdiv (of_int tH) (of_int srcH));
         ow = max 1 (js_round (fmul (of_int srcW) scale));
         oh = max 1 (js_round (fmul (of_int srcH) scale))
     in \<lparr>outW = ow, outH = oh,
         draw = \<lparr>sx = 0, sy = 0, sw = srcW, sh = srcH, dx = 0, dy = 0, dw = ow, dh = oh\<rparr>\<rparr>)"
  by (simp add: computeTargetSize_def)

lemma inside_bounds:
  assumes "0 < srcW" and "0 < srcH"
    and "0 < targetW" and "targetW < 2 ^ 26" and "0 < tH" and "tH < 2 ^ 26"
  defines "scale \<equiv> min (fdiv (of_int targetW) (of_int srcW)) (fdiv (of_int tH) (of_int srcH))"
  defines "ow \<equiv> max 1 (js_round (fmul (of_int srcW) scale))"
  defines "oh \<equiv> max 1 (js_round (fmul (of_int srcH) scale))"
  shows "ow \<le> targetW" and "oh \<le> tH" and "ow = targetW \<or> oh = tH"
    and "srcW * tH = srcH * targetW \<Longrightarrow> ow = targetW \<and> oh = tH"
proof -
  define a where "a = fdiv (of_int targetW) (of_int srcW)"
  define b where "b = fdiv (of_int tH) (of_int srcH)"
  have sc: "scale = min a b" by (simp add: scale_def a_def b_def)
  have tw: "targetW < 2 ^ 31" and th: "tH < 2 ^ 31"
    using assms(4,6) by simp_all
  have pa: "0 < a" and pb: "0 < b"
    unfolding a_def b_def using assms by (simp_all add: fdiv_pos)
  then have pm: "0 < min a b" by simp
  show wle: "ow \<le> targetW"
    unfolding ow_def sc using assms(1,3) tw pm by (intro fit_le) (simp_all add: a_def)
  show hle: "oh \<le> tH"
    unfolding oh_def sc using assms(2,5) th pm by (intro fit_le) (simp_all add: b_def)
  have weq: "ow = targetW" if "a \<le> b"
    using that fit_eq [OF assms(1,3) tw] by (simp add: ow_def sc a_def min_def)
  have heq: "oh = tH" if "b \<le> a"
    using that fit_eq [OF assms(2,5) th] by (simp add: oh_def sc b_def min_def)
  show "ow = targetW \<or> oh = tH"
    using weq heq by (cases "a \<le> b") auto
  show "ow = targetW \<and> oh = tH" if "srcW * tH = srcH * targetW"
  proof -
    have "(of_int srcW * of_int tH :: real) = of_int srcH * of_int targetW"
      using that by (metis of_int_mult)
    then have "(of_int targetW / of_int srcW :: real) = of_int tH / of_int srcH"
      using assms(1,2) by (simp add: field_simps)
    then have "a = b"
      by (simp add: a_def b_def fdiv_def)
    then show ?thesis using weq heq by simp
  qed
qed

lemma scale_exact:
  assumes "0 < srcW" and "0 < srcH" and "0 < targetW" and "0 < tH"
  defines "exact \<equiv> min (of_int targetW / of_int srcW) (of_int tH / of_int srcH) :: real"
  shows "min (fdiv (of_int targetW) (of_int srcW)) (fdiv (of_int tH) (of_int srcH)) = fl exact"
    and "0 < exact" and "of_int srcW * exact \<le> of_int targetW" and "of_int srcH * exact \<le> of_int tH"
proof -
  have a: "(0::real) < of_int targetW / of_int srcW" and b: "(0::real) < of_int tH / of_int srcH"
    using assms by simp_all
  show "min (fdiv (of_int targetW) (of_int srcW)) (fdiv (of_int tH) (of_int srcH)) = fl exact"
    unfolding fdiv_def exact_def by (rule fl_min [OF a b])
  show "0 < exact" using a b by (simp add: exact_def)
  have "of_int srcW * exact \<le> of_int srcW * (of_int targetW / of_int srcW)"
    using assms(1) by (intro mult_left_mono) (simp_all add: exact_def)
  then show "of_int srcW * exact \<le> of_int targetW"
    using assms(1) by simp
  have "of_int srcH * exact \<le> of_int srcH * (of_int tH / of_int srcH)"
    using assms(2) by (intro mult_left_mono) (simp_all add: exact_def)
  then show "of_int srcH * exact \<le> of_int tH"
    using assms(2) by simp
qed

text \<open>
  Claim C3. In mode inside with both targets present and positive dimensions below
  \<open>2 ^ 26\<close>, \<open>computeTargetSize\<close> returns \<open>outW = max 1 (round (srcW * scale))\<close> and
  \<open>outH = max 1 (round (srcH * scale))\<close> with \<open>scale = min (targetW / srcW) (targetH / srcH)\<close>,
  every quotient and product being a double operation. The scale is the double nearest to
  the exact minimum of the two quotients. Each output size is at least 1 and is the rounded
  product to within one half, so it is the nearest integer with a tie going up; measured
  against the exact product \<open>srcW * min (targetW / srcW) (targetH / srcH)\<close> it is within
  \<open>1/2 + 2 ^ - 25\<close>. Neither output size exceeds its target, at least one of them equals its
  target, and both do when \<open>srcW * targetH = srcH * targetW\<close>.
\<close>

theorem inside_fits_box:
  assumes "0 < srcW" and "srcW < 2 ^ 26" and "0 < srcH" and "srcH < 2 ^ 26"
    and "0 < targetW" and "targetW < 2 ^ 26" and "0 < tH" and "tH < 2 ^ 26"
  shows "(let scale = min (fdiv (of_int targetW) (of_int srcW)) (fdiv (of_int tH) (of_int srcH));
              exact = min (of_int targetW / of_int srcW) (of_int tH / of_int srcH) :: real;
              w = outW (computeTargetSize srcW srcH targetW (Some tH) Inside);
              h = outH (computeTargetSize srcW srcH targetW (Some tH) Inside)
          in w = max 1 (js_round (fmul (of_int srcW) scale))
           \<and> h = max 1 (js_round (fmul (of_int srcH) scale))
           \<and> scale = fl exact
           \<and> 1 \<le> w \<and> fmul (of_int srcW) scale - 1 / 2 < of_int w
           \<and> of_int w \<le> max 1 (fmul (of_int srcW) scale + 1 / 2)
           \<and> 1 \<le> h \<and> fmul (of_int srcH) scale - 1 / 2 < of_int h
           \<and> of_int h \<le> max 1 (fmul (of_int srcH) scale + 1 / 2)
           \<and> of_int srcW * exact - 1 / 2 - 1 / 2 ^ 25 < of_int w
           \<and> of_int w \<le> max 1 (of_int srcW * exact + 1 / 2 + 1 / 2 ^ 25)
           \<and> of_int srcH * exact - 1 / 2 - 1 / 2 ^ 25 < of_int h
           \<and> of_int h \<le> max 1 (of_int srcH * exact + 1 / 2 + 1 / 2 ^ 25)
           \<and> w \<le> targetW \<and> h \<le> tH
           \<and> (w = targetW \<or> h = tH)
           \<and> (srcW * tH = srcH * targetW \<longrightarrow> w = targetW \<and> h = tH))"
proof -
  define scale where "scale = min (fdiv (of_int targetW) (of_int srcW)) (fdiv (of_int tH) (of_int srcH))"
  define exact :: real where "exact = min (of_int targetW / of_int srcW) (of_int tH / of_int srcH)"
  define ow where "ow = max 1 (js_round (fmul (of_int srcW) scale))"
  define oh where "oh = max 1 (js_round (fmul (of_int srcH) scale))"
  have W: "outW (computeTargetSize srcW srcH targetW (Some tH) Inside) = ow"
    and H: "outH (computeTargetSize srcW srcH targetW (Some tH) Inside) = oh"
    by (simp_all add: inside_result Let_def ow_def oh_def scale_def)
  note b = inside_bounds [OF assms(1,3,5,6,7,8), folded scale_def, folded ow_def oh_def]
  note x = scale_exact [OF assms(1,3,5,7), folded scale_def exact_def]
  have pinw: "1 \<le> ow \<and> fmul (of_int srcW) scale - 1 / 2 < of_int ow
      \<and> of_int ow \<le> max 1 (fmul (of_int srcW) scale + 1 / 2)"
    unfolding ow_def using max_round_pin by blast
  have pinh: "1 \<le> oh \<and> fmul (of_int srcH) scale - 1 / 2 < of_int oh
      \<and> of_int oh \<le> max 1 (fmul (of_int srcH) scale + 1 / 2)"
    unfolding oh_def using max_round_pin by blast
  have cw: "of_int srcW * exact - 1 / 2 - 1 / 2 ^ 25 < of_int ow
      \<and> of_int ow \<le> max 1 (of_int srcW * exact + 1 / 2 + 1 / 2 ^ 25)"
    unfolding ow_def x(1)
    using max_round_close [OF fit_close [OF assms(1,6) x(2,3)]] by blast
  have ch: "of_int srcH * exact - 1 / 2 - 1 / 2 ^ 25 < of_int oh
      \<and> of_int oh \<le> max 1 (of_int srcH * exact + 1 / 2 + 1 / 2 ^ 25)"
    unfolding oh_def x(1)
    using max_round_close [OF fit_close [OF assms(3,8) x(2,4)]] by blast
  have both: "srcW * tH = srcH * targetW \<longrightarrow> ow = targetW \<and> oh = tH"
    using b(4) by blast
  have eqs: "ow = max 1 (js_round (fmul (of_int srcW) scale))
      \<and> oh = max 1 (js_round (fmul (of_int srcH) scale)) \<and> scale = fl exact"
    using x(1) by (simp add: ow_def oh_def)
  show ?thesis
    unfolding Let_def W H scale_def [symmetric] exact_def [symmetric]
    using eqs pinw pinh cw ch b(1,2,3) both by blast
qed

text \<open>
  Three sources whose products do not fall on an integer: 800x600 into 82x62 gives 82x61
  (the exact product \<open>600 * 0.1025\<close> is the tie \<open>61.5\<close>, the double product lies just below
  it), 1000x700 into 333x200 gives 286x200 (\<open>285.71\<close> rounds up), and 1920x1080 into 500x500
  gives 500x281 (\<open>281.25\<close> rounds down). A 400x300 source of the target's ratio is enlarged
  to the full 800x600.
\<close>

theorem inside_fits_box_witness:
  "outW (computeTargetSize 800 600 82 (Some 62) Inside) = 82
    \<and> outH (computeTargetSize 800 600 82 (Some 62) Inside) = 61
    \<and> outW (computeTargetSize 1000 700 333 (Some 200) Inside) = 286
    \<and> outH (computeTargetSize 1000 700 333 (Some 200) Inside) = 200
    \<and> outW (computeTargetSize 1920 1080 500 (Some 500) Inside) = 500
    \<and> outH (computeTargetSize 1920 1080 500 (Some 500) Inside) = 281
    \<and> outW (computeTargetSize 400 300 800 (Some 600) Inside) = 800
    \<and> outH (computeTargetSize 400 300 800 (Some 600) Inside) = 600"
proof -
  have a: "max 1 (js_round (fmul 800 (min (fdiv 82 800) (fdiv 62 600)))) = 82"
    "max 1 (js_round (fmul 600 (min (fdiv 82 800) (fdiv 62 600)))) = 61"
    by code_simp+
  have b: "max 1 (js_round (fmul 1000 (min (fdiv 333 1000) (fdiv 200 700)))) = 286"
    "max 1 (js_round (fmul 700 (min (fdiv 333 1000) (fdiv 200 700)))) = 200"
    by code_simp+
  have c: "max 1 (js_round (fmul 1920 (min (fdiv 500 1920) (fdiv 500 1080)))) = 500"
    "max 1 (js_round (fmul 1080 (min (fdiv 500 1920) (fdiv 500 1080)))) = 281"
    by code_simp+
  from inside_fits_box [of 800 600 82 62]
  have "outW (computeTargetSize 800 600 82 (Some 62) Inside)
        = max 1 (js_round (fmul 800 (min (fdiv 82 800) (fdiv 62 600))))
      \<and> outH (computeTargetSize 800 600 82 (Some 62) Inside)
        = max 1 (js_round (fmul 600 (min (fdiv 82 800) (fdiv 62 600))))"
    by (simp add: Let_def)
  then have 1: "outW (computeTargetSize 800 600 82 (Some 62) Inside) = 82
      \<and> outH (computeTargetSize 800 600 82 (Some 62) Inside) = 61"
    by (simp only: a)
  from inside_fits_box [of 1000 700 333 200]
  have "outW (computeTargetSize 1000 700 333 (Some 200) Inside)
        = max 1 (js_round (fmul 1000 (min (fdiv 333 1000) (fdiv 200 700))))
      \<and> outH (computeTargetSize 1000 700 333 (Some 200) Inside)
        = max 1 (js_round (fmul 700 (min (fdiv 333 1000) (fdiv 200 700))))"
    by (simp add: Let_def)
  then have 2: "outW (computeTargetSize 1000 700 333 (Some 200) Inside) = 286
      \<and> outH (computeTargetSize 1000 700 333 (Some 200) Inside) = 200"
    by (simp only: b)
  from inside_fits_box [of 1920 1080 500 500]
  have "outW (computeTargetSize 1920 1080 500 (Some 500) Inside)
        = max 1 (js_round (fmul 1920 (min (fdiv 500 1920) (fdiv 500 1080))))
      \<and> outH (computeTargetSize 1920 1080 500 (Some 500) Inside)
        = max 1 (js_round (fmul 1080 (min (fdiv 500 1920) (fdiv 500 1080))))"
    by (simp add: Let_def)
  then have 3: "outW (computeTargetSize 1920 1080 500 (Some 500) Inside) = 500
      \<and> outH (computeTargetSize 1920 1080 500 (Some 500) Inside) = 281"
    by (simp only: c)
  have p: "0 < (400::int)" "(400::int) < 2 ^ 26" "0 < (300::int)" "(300::int) < 2 ^ 26"
    "0 < (800::int)" "(800::int) < 2 ^ 26" "0 < (600::int)" "(600::int) < 2 ^ 26"
    by simp_all
  from inside_fits_box [OF p, unfolded Let_def]
  have "(400::int) * 600 = 300 * 800 \<longrightarrow>
      outW (computeTargetSize 400 300 800 (Some 600) Inside) = 800
      \<and> outH (computeTargetSize 400 300 800 (Some 600) Inside) = 600"
    by blast
  then have 4: "outW (computeTargetSize 400 300 800 (Some 600) Inside) = 800
      \<and> outH (computeTargetSize 400 300 800 (Some 600) Inside) = 600"
    by simp
  from 1 2 3 4 show ?thesis by simp
qed

section \<open>Mode cover\<close>

lemma cover_result:
  "computeTargetSize srcW srcH targetW (Some tH) Cover =
    (if fdiv (of_int srcW) (of_int srcH) > fdiv (of_int targetW) (of_int tH) then
       (let cw = js_round (fmul (of_int srcH) (fdiv (of_int targetW) (of_int tH)));
            cx = js_round (fdiv (fsub (of_int srcW) (of_int cw)) 2)
        in \<lparr>outW = targetW, outH = tH,
            draw = \<lparr>sx = cx, sy = 0, sw = cw, sh = srcH, dx = 0, dy = 0, dw = targetW, dh = tH\<rparr>\<rparr>)
     else
       (let ch = js_round (fdiv (of_int srcW) (fdiv (of_int targetW) (of_int tH)));
            cy = js_round (fdiv (fsub (of_int srcH) (of_int ch)) 2)
        in \<lparr>outW = targetW, outH = tH,
            draw = \<lparr>sx = 0, sy = cy, sw = srcW, sh = ch, dx = 0, dy = 0, dw = targetW, dh = tH\<rparr>\<rparr>))"
  by (simp add: computeTargetSize_def Let_def)

text \<open>
  The crop of mode cover lies in the source: when the source is relatively wider the
  rounded product \<open>srcH * dstRatio\<close> stays below \<open>srcW + 1/2\<close>, otherwise the rounded
  quotient \<open>srcW / dstRatio\<close> stays below \<open>srcH + 1/2\<close>.
\<close>

lemma cover_wide:
  assumes "0 < srcW" and "srcW < 2 ^ 26" and "0 < srcH" and "0 < targetW" and "0 < tH"
    and "targetW * srcH < srcW * tH"
  defines "x \<equiv> fmul (of_int srcH) (fdiv (of_int targetW) (of_int tH))"
  shows "0 \<le> js_round x" and "js_round x \<le> srcW"
    and "\<bar>real_of_int (js_round x) - of_int srcH * of_int targetW / of_int tH\<bar> \<le> 1 / 2 + 1 / 2 ^ 25"
proof -
  define P :: real where "P = of_int srcH * (of_int targetW / of_int tH)"
  define e :: real where "e = 3 * P / 2 ^ 53"
  have q: "(0::real) < of_int targetW / of_int tH" using assms by simp
  have s: "(0::real) < of_int srcH" using assms by simp
  have P0: "0 < P" unfolding P_def by (rule mult_pos_pos [OF s q])
  have "(of_int (targetW * srcH) :: real) < of_int (srcW * tH)"
    using assms(6) by (simp only: of_int_less_iff)
  then have PW: "P < of_int srcW"
    unfolding P_def using assms(5) by (simp add: field_simps)
  moreover have W: "(of_int srcW :: real) < 67108864"
    using assms(2) by simp
  ultimately have "P < 67108864" by linarith
  then have e: "0 < e" "e < 1 / 33554432" "e \<le> P"
    using P0 by (simp_all add: e_def)
  have cl: "\<bar>x - P\<bar> \<le> e"
    unfolding x_def P_def fmul_def fdiv_def e_def by (rule fmul_fl_close [OF s q])
  have pin: "of_int (js_round x) \<le> x + 1 / 2" "x - 1 / 2 < of_int (js_round x)"
    by (rule js_round_pin)+
  have "0 \<le> x" using cl e P0 by linarith
  then show "0 \<le> js_round x" by (rule js_round_nonneg)
  have "(of_int (js_round x) :: real) < of_int srcW + 1"
    using pin cl e PW by linarith
  then have "(of_int (js_round x) :: real) < of_int (srcW + 1)" by simp
  then have "js_round x < srcW + 1" by (simp only: of_int_less_iff)
  then show "js_round x \<le> srcW" by simp
  have "\<bar>real_of_int (js_round x) - P\<bar> \<le> 1 / 2 + 1 / 33554432"
    using pin cl e by linarith
  then show "\<bar>real_of_int (js_round x) - of_int srcH * of_int targetW / of_int tH\<bar> \<le> 1 / 2 + 1 / 2 ^ 25"
    by (simp add: P_def)
qed

lemma cover_tall:
  assumes "0 < srcW" and "0 < srcH" and "srcH < 2 ^ 26" and "0 < targetW" and "0 < tH"
    and "srcW * tH \<le> targetW * srcH"
  defines "y \<equiv> fdiv (of_int srcW) (fdiv (of_int targetW) (of_int tH))"
  shows "0 \<le> js_round y" and "js_round y \<le> srcH"
    and "\<bar>real_of_int (js_round y) - of_int srcW * of_int tH / of_int targetW\<bar> \<le> 1 / 2 + 1 / 2 ^ 25"
proof -
  define E :: real where "E = of_int srcW / (of_int targetW / of_int tH)"
  define e :: real where "e = 4 * E / 2 ^ 53"
  have q: "(0::real) < of_int targetW / of_int tH" using assms by simp
  have s: "(0::real) < of_int srcW" using assms by simp
  have E0: "0 < E" unfolding E_def by (rule divide_pos_pos [OF s q])
  have "(of_int (srcW * tH) :: real) \<le> of_int (targetW * srcH)"
    using assms(6) by (simp only: of_int_le_iff)
  then have EH: "E \<le> of_int srcH"
    unfolding E_def using assms(4,5) by (simp add: field_simps)
  moreover have H: "(of_int srcH :: real) < 67108864"
    using assms(3) by simp
  ultimately have "E < 67108864" by linarith
  then have e: "0 < e" "e < 1 / 33554432" "e \<le> E"
    using E0 by (simp_all add: e_def)
  have cl: "\<bar>y - E\<bar> \<le> e"
    unfolding y_def E_def fdiv_def e_def by (rule fdiv_fl_close [OF s q])
  have pin: "of_int (js_round y) \<le> y + 1 / 2" "y - 1 / 2 < of_int (js_round y)"
    by (rule js_round_pin)+
  have "0 \<le> y" using cl e E0 by linarith
  then show "0 \<le> js_round y" by (rule js_round_nonneg)
  have "(of_int (js_round y) :: real) < of_int srcH + 1"
    using pin cl e EH by linarith
  then have "(of_int (js_round y) :: real) < of_int (srcH + 1)" by simp
  then have "js_round y < srcH + 1" by (simp only: of_int_less_iff)
  then show "js_round y \<le> srcH" by simp
  have "\<bar>real_of_int (js_round y) - E\<bar> \<le> 1 / 2 + 1 / 33554432"
    using pin cl e by linarith
  then show "\<bar>real_of_int (js_round y) - of_int srcW * of_int tH / of_int targetW\<bar> \<le> 1 / 2 + 1 / 2 ^ 25"
    by (simp add: E_def)
qed

text \<open>
  Claim C2. In mode cover with both targets present and positive dimensions below \<open>2 ^ 26\<close>,
  the output is exactly \<open>targetW x targetH\<close> and the draw fills the whole destination. The
  comparison of the two double ratios decides as \<open>srcW / srcH > targetW / targetH\<close> does in
  exact arithmetic. When it holds, the crop is \<open>sw = round (srcH * dstRatio)\<close>,
  \<open>sx = round ((srcW - sw) / 2)\<close> at full height; otherwise it is
  \<open>sh = round (srcW / dstRatio)\<close>, \<open>sy = round ((srcH - sh) / 2)\<close> at full width, with
  \<open>dstRatio\<close>, the product and the quotient computed in doubles. The crop size is the double
  value rounded to the nearest integer, a tie going up, and is within \<open>1/2 + 2 ^ - 25\<close> of the
  exact \<open>srcH * targetW / targetH\<close>, respectively \<open>srcW * targetH / targetW\<close>. The crop lies
  in the source, and the offset is half of what the crop removes, rounded up, so the two
  margins differ by at most one pixel. A 1600x900 source with target 800x800 gives output
  800x800 with \<open>sw = 900\<close> and \<open>sx = 350\<close>. For a 3000x2000 source and target 800x530 the
  exact quotient \<open>3000 * 530 / 800\<close> is the tie \<open>1987.5\<close>; the double quotient lies below it
  and the crop height is 1987 at \<open>sy = 7\<close>. For a 9x4 source and target 18x7 the exact
  quotient is the tie \<open>3.5\<close> and the crop height is 3 at \<open>sy = 1\<close>.
\<close>

theorem cover_crop:
  assumes "0 < srcW" and "srcW < 2 ^ 26" and "0 < srcH" and "srcH < 2 ^ 26"
    and "0 < targetW" and "targetW < 2 ^ 26" and "0 < tH" and "tH < 2 ^ 26"
  shows "outW (computeTargetSize srcW srcH targetW (Some tH) Cover) = targetW
    \<and> outH (computeTargetSize srcW srcH targetW (Some tH) Cover) = tH
    \<and> dx (draw (computeTargetSize srcW srcH targetW (Some tH) Cover)) = 0
    \<and> dy (draw (computeTargetSize srcW srcH targetW (Some tH) Cover)) = 0
    \<and> dw (draw (computeTargetSize srcW srcH targetW (Some tH) Cover)) = targetW
    \<and> dh (draw (computeTargetSize srcW srcH targetW (Some tH) Cover)) = tH
    \<and> (fdiv (of_int srcW) (of_int srcH) > fdiv (of_int targetW) (of_int tH)
          \<longleftrightarrow> (of_int srcW / of_int srcH :: real) > of_int targetW / of_int tH)
    \<and> ((of_int srcW / of_int srcH :: real) > of_int targetW / of_int tH \<longrightarrow>
          (let d = draw (computeTargetSize srcW srcH targetW (Some tH) Cover);
               x = fmul (of_int srcH) (fdiv (of_int targetW) (of_int tH))
           in sw d = js_round x
            \<and> x - 1 / 2 < of_int (sw d) \<and> of_int (sw d) \<le> x + 1 / 2
            \<and> \<bar>real_of_int (sw d) - of_int srcH * of_int targetW / of_int tH\<bar> \<le> 1 / 2 + 1 / 2 ^ 25
            \<and> sx d = js_round (fdiv (fsub (of_int srcW) (of_int (sw d))) 2)
            \<and> sx d = (srcW - sw d + 1) div 2
            \<and> sh d = srcH \<and> sy d = 0
            \<and> 0 \<le> sw d \<and> sw d \<le> srcW \<and> 0 \<le> sx d \<and> sx d + sw d \<le> srcW))
    \<and> (\<not> (of_int srcW / of_int srcH :: real) > of_int targetW / of_int tH \<longrightarrow>
          (let d = draw (computeTargetSize srcW srcH targetW (Some tH) Cover);
               y = fdiv (of_int srcW) (fdiv (of_int targetW) (of_int tH))
           in sh d = js_round y
            \<and> y - 1 / 2 < of_int (sh d) \<and> of_int (sh d) \<le> y + 1 / 2
            \<and> \<bar>real_of_int (sh d) - of_int srcW * of_int tH / of_int targetW\<bar> \<le> 1 / 2 + 1 / 2 ^ 25
            \<and> sy d = js_round (fdiv (fsub (of_int srcH) (of_int (sh d))) 2)
            \<and> sy d = (srcH - sh d + 1) div 2
            \<and> sw d = srcW \<and> sx d = 0
            \<and> 0 \<le> sh d \<and> sh d \<le> srcH \<and> 0 \<le> sy d \<and> sy d + sh d \<le> srcH))
    \<and> computeTargetSize 1600 900 800 (Some 800) Cover =
        \<lparr>outW = 800, outH = 800,
         draw = \<lparr>sx = 350, sy = 0, sw = 900, sh = 900, dx = 0, dy = 0, dw = 800, dh = 800\<rparr>\<rparr>
    \<and> computeTargetSize 3000 2000 800 (Some 530) Cover =
        \<lparr>outW = 800, outH = 530,
         draw = \<lparr>sx = 0, sy = 7, sw = 3000, sh = 1987, dx = 0, dy = 0, dw = 800, dh = 530\<rparr>\<rparr>
    \<and> computeTargetSize 9 4 18 (Some 7) Cover =
        \<lparr>outW = 18, outH = 7,
         draw = \<lparr>sx = 0, sy = 1, sw = 9, sh = 3, dx = 0, dy = 0, dw = 18, dh = 7\<rparr>\<rparr>"
proof -
  let ?r = "computeTargetSize srcW srcH targetW (Some tH) Cover"
  let ?wide = "(of_int srcW / of_int srcH :: real) > of_int targetW / of_int tH"
  define x where "x = fmul (of_int srcH) (fdiv (of_int targetW) (of_int tH))"
  define y where "y = fdiv (of_int srcW) (fdiv (of_int targetW) (of_int tH))"
  have e1: "computeTargetSize 1600 900 800 (Some 800) Cover =
        \<lparr>outW = 800, outH = 800,
         draw = \<lparr>sx = 350, sy = 0, sw = 900, sh = 900, dx = 0, dy = 0, dw = 800, dh = 800\<rparr>\<rparr>"
    by code_simp
  have e2: "computeTargetSize 3000 2000 800 (Some 530) Cover =
        \<lparr>outW = 800, outH = 530,
         draw = \<lparr>sx = 0, sy = 7, sw = 3000, sh = 1987, dx = 0, dy = 0, dw = 800, dh = 530\<rparr>\<rparr>"
    by code_simp
  have e3: "computeTargetSize 9 4 18 (Some 7) Cover =
        \<lparr>outW = 18, outH = 7,
         draw = \<lparr>sx = 0, sy = 1, sw = 9, sh = 3, dx = 0, dy = 0, dw = 18, dh = 7\<rparr>\<rparr>"
    by code_simp
  have out: "outW ?r = targetW \<and> outH ?r = tH \<and> dx (draw ?r) = 0 \<and> dy (draw ?r) = 0
      \<and> dw (draw ?r) = targetW \<and> dh (draw ?r) = tH"
    by (simp add: cover_result Let_def)
  have cmp: "fdiv (of_int srcW) (of_int srcH) > fdiv (of_int targetW) (of_int tH) \<longleftrightarrow> ?wide"
    using ratio_compare [OF assms(1,2,3,5,7,8)] ratio_less_iff [OF assms(3,7), of targetW srcW]
    by simp
  have wide: "let d = draw ?r; x = fmul (of_int srcH) (fdiv (of_int targetW) (of_int tH))
           in sw d = js_round x
            \<and> x - 1 / 2 < of_int (sw d) \<and> of_int (sw d) \<le> x + 1 / 2
            \<and> \<bar>real_of_int (sw d) - of_int srcH * of_int targetW / of_int tH\<bar> \<le> 1 / 2 + 1 / 2 ^ 25
            \<and> sx d = js_round (fdiv (fsub (of_int srcW) (of_int (sw d))) 2)
            \<and> sx d = (srcW - sw d + 1) div 2
            \<and> sh d = srcH \<and> sy d = 0
            \<and> 0 \<le> sw d \<and> sw d \<le> srcW \<and> 0 \<le> sx d \<and> sx d + sw d \<le> srcW" if w: "?wide"
  proof -
    have lt: "targetW * srcH < srcW * tH"
      using w ratio_less_iff [OF assms(3,7), of targetW srcW] by simp
    have d: "draw ?r = \<lparr>sx = js_round (fdiv (fsub (of_int srcW) (of_int (js_round x))) 2), sy = 0,
        sw = js_round x, sh = srcH, dx = 0, dy = 0, dw = targetW, dh = tH\<rparr>"
      using w cmp by (simp add: cover_result Let_def x_def)
    note b = cover_wide [OF assms(1,2,3,5,7) lt, folded x_def]
    have "\<bar>srcW - js_round x\<bar> < 2 ^ 53"
      using b(1,2) assms(2) by simp
    note h = half_diff [OF this]
    note c = centre_bounds [OF b(1,2)]
    show ?thesis
      unfolding Let_def d x_def [symmetric]
      using b c js_round_pin [of x] by (simp add: h)
  qed
  have tall: "let d = draw ?r; y = fdiv (of_int srcW) (fdiv (of_int targetW) (of_int tH))
           in sh d = js_round y
            \<and> y - 1 / 2 < of_int (sh d) \<and> of_int (sh d) \<le> y + 1 / 2
            \<and> \<bar>real_of_int (sh d) - of_int srcW * of_int tH / of_int targetW\<bar> \<le> 1 / 2 + 1 / 2 ^ 25
            \<and> sy d = js_round (fdiv (fsub (of_int srcH) (of_int (sh d))) 2)
            \<and> sy d = (srcH - sh d + 1) div 2
            \<and> sw d = srcW \<and> sx d = 0
            \<and> 0 \<le> sh d \<and> sh d \<le> srcH \<and> 0 \<le> sy d \<and> sy d + sh d \<le> srcH" if w: "\<not> ?wide"
  proof -
    have le: "srcW * tH \<le> targetW * srcH"
      using w ratio_less_iff [OF assms(3,7), of targetW srcW] by simp
    have d: "draw ?r = \<lparr>sx = 0, sy = js_round (fdiv (fsub (of_int srcH) (of_int (js_round y))) 2),
        sw = srcW, sh = js_round y, dx = 0, dy = 0, dw = targetW, dh = tH\<rparr>"
      using w cmp by (simp add: cover_result Let_def y_def)
    note b = cover_tall [OF assms(1,3,4,5,7) le, folded y_def]
    have "\<bar>srcH - js_round y\<bar> < 2 ^ 53"
      using b(1,2) assms(4) by simp
    note h = half_diff [OF this]
    note c = centre_bounds [OF b(1,2)]
    show ?thesis
      unfolding Let_def d y_def [symmetric]
      using b c js_round_pin [of y] by (simp add: h)
  qed
  show ?thesis
    apply (intro conjI impI)
                   apply (simp_all only: out e1 e2 e3)
      apply (rule cmp)
     apply (erule wide)
    apply (erule tall)
    done
qed

text \<open>
  Sources whose crop size does not fall on an integer, in both branches: \<open>943.6\<close> rounds up
  to 944 and \<open>799.2\<close> down to 799 when the width is cropped, \<open>666.67\<close> rounds up to 667 and
  the double just below the tie \<open>1987.5\<close> down to 1987 when the height is cropped.
\<close>

theorem cover_crop_witness:
  "(let d = draw (computeTargetSize 1000 700 337 (Some 250) Cover)
    in sw d = 944 \<and> sx d = 28 \<and> sh d = 700 \<and> sy d = 0)
    \<and> (let d = draw (computeTargetSize 1000 600 333 (Some 250) Cover)
    in sw d = 799 \<and> sx d = 101 \<and> sh d = 600 \<and> sy d = 0)
    \<and> (let d = draw (computeTargetSize 1000 700 300 (Some 200) Cover)
    in sh d = 667 \<and> sy d = 17 \<and> sw d = 1000 \<and> sx d = 0)
    \<and> (let d = draw (computeTargetSize 3000 2000 800 (Some 530) Cover)
    in sh d = 1987 \<and> sy d = 7 \<and> sw d = 3000 \<and> sx d = 0)"
proof -
  have a: "js_round (fmul 700 (fdiv 337 250)) = 944" by code_simp
  have b: "js_round (fmul 600 (fdiv 333 250)) = 799" by code_simp
  have c: "js_round (fdiv 1000 (fdiv 300 200)) = 667" by code_simp
  have d: "js_round (fdiv 3000 (fdiv 800 530)) = 1987" by code_simp
  have a': "js_round (fdiv (fsub 1000 944) 2) = 28" by code_simp
  have b': "js_round (fdiv (fsub 1000 799) 2) = 101" by code_simp
  have c': "js_round (fdiv (fsub 700 667) 2) = 17" by code_simp
  have d': "js_round (fdiv (fsub 2000 1987) 2) = 7" by code_simp
  have 1: "let d = draw (computeTargetSize 1000 700 337 (Some 250) Cover)
    in sw d = 944 \<and> sx d = 28 \<and> sh d = 700 \<and> sy d = 0"
    using cover_crop [of 1000 700 337 250] by (simp add: Let_def a a')
  have 2: "let d = draw (computeTargetSize 1000 600 333 (Some 250) Cover)
    in sw d = 799 \<and> sx d = 101 \<and> sh d = 600 \<and> sy d = 0"
    using cover_crop [of 1000 600 333 250] by (simp add: Let_def b b')
  have 3: "let d = draw (computeTargetSize 1000 700 300 (Some 200) Cover)
    in sh d = 667 \<and> sy d = 17 \<and> sw d = 1000 \<and> sx d = 0"
    using cover_crop [of 1000 700 300 200] by (simp add: Let_def c c')
  have 4: "let d = draw (computeTargetSize 3000 2000 800 (Some 530) Cover)
    in sh d = 1987 \<and> sy d = 7 \<and> sw d = 3000 \<and> sx d = 0"
    using cover_crop [of 3000 2000 800 530] by (simp add: Let_def d d')
  from 1 2 3 4 show ?thesis by (intro conjI)
qed

section \<open>Mode pad, and what is painted\<close>

lemma pad_result:
  "computeTargetSize srcW srcH targetW (Some tH) Pad =
    (let scale = min (fdiv (of_int targetW) (of_int srcW)) (fdiv (of_int tH) (of_int srcH));
         pw = max 1 (js_round (fmul (of_int srcW) scale));
         ph = max 1 (js_round (fmul (of_int srcH) scale));
         px = js_round (fdiv (fsub (of_int targetW) (of_int pw)) 2);
         py = js_round (fdiv (fsub (of_int tH) (of_int ph)) 2)
     in \<lparr>outW = targetW, outH = tH,
         draw = \<lparr>sx = 0, sy = 0, sw = srcW, sh = srcH, dx = px, dy = py, dw = pw, dh = ph\<rparr>\<rparr>)"
  by (simp add: computeTargetSize_def)

lemma pad_geometry:
  assumes "0 < srcW" and "0 < srcH"
    and "0 < targetW" and "targetW < 2 ^ 26" and "0 < tH" and "tH < 2 ^ 26"
  shows "let d = draw (computeTargetSize srcW srcH targetW (Some tH) Pad);
             scale = min (fdiv (of_int targetW) (of_int srcW)) (fdiv (of_int tH) (of_int srcH));
             exact = min (of_int targetW / of_int srcW) (of_int tH / of_int srcH) :: real
        in dw d = max 1 (js_round (fmul (of_int srcW) scale))
         \<and> dh d = max 1 (js_round (fmul (of_int srcH) scale))
         \<and> dw d = outW (computeTargetSize srcW srcH targetW (Some tH) Inside)
         \<and> dh d = outH (computeTargetSize srcW srcH targetW (Some tH) Inside)
         \<and> of_int srcW * exact - 1 / 2 - 1 / 2 ^ 25 < of_int (dw d)
         \<and> of_int (dw d) \<le> max 1 (of_int srcW * exact + 1 / 2 + 1 / 2 ^ 25)
         \<and> of_int srcH * exact - 1 / 2 - 1 / 2 ^ 25 < of_int (dh d)
         \<and> of_int (dh d) \<le> max 1 (of_int srcH * exact + 1 / 2 + 1 / 2 ^ 25)
         \<and> dx d = js_round (fdiv (fsub (of_int targetW) (of_int (dw d))) 2)
         \<and> dy d = js_round (fdiv (fsub (of_int tH) (of_int (dh d))) 2)
         \<and> dx d = (targetW - dw d + 1) div 2
         \<and> dy d = (tH - dh d + 1) div 2
         \<and> 1 \<le> dw d \<and> 1 \<le> dh d
         \<and> 0 \<le> dx d \<and> dx d + dw d \<le> targetW
         \<and> 0 \<le> dy d \<and> dy d + dh d \<le> tH
         \<and> sx d = 0 \<and> sy d = 0 \<and> sw d = srcW \<and> sh d = srcH"
proof -
  define scale where "scale = min (fdiv (of_int targetW) (of_int srcW)) (fdiv (of_int tH) (of_int srcH))"
  define exact :: real where "exact = min (of_int targetW / of_int srcW) (of_int tH / of_int srcH)"
  define pw where "pw = max 1 (js_round (fmul (of_int srcW) scale))"
  define ph where "ph = max 1 (js_round (fmul (of_int srcH) scale))"
  have d: "draw (computeTargetSize srcW srcH targetW (Some tH) Pad) =
      \<lparr>sx = 0, sy = 0, sw = srcW, sh = srcH,
       dx = js_round (fdiv (fsub (of_int targetW) (of_int pw)) 2),
       dy = js_round (fdiv (fsub (of_int tH) (of_int ph)) 2), dw = pw, dh = ph\<rparr>"
    by (simp add: pad_result Let_def pw_def ph_def scale_def)
  have W: "outW (computeTargetSize srcW srcH targetW (Some tH) Inside) = pw"
    and H: "outH (computeTargetSize srcW srcH targetW (Some tH) Inside) = ph"
    by (simp_all add: inside_result Let_def pw_def ph_def scale_def)
  note b = inside_bounds [OF assms, folded scale_def, folded pw_def ph_def]
  note x = scale_exact [OF assms(1,2,3,5), folded scale_def exact_def]
  have p: "1 \<le> pw" "1 \<le> ph" "0 \<le> pw" "0 \<le> ph"
    by (simp_all add: pw_def ph_def)
  have "\<bar>targetW - pw\<bar> < 2 ^ 53" "\<bar>tH - ph\<bar> < 2 ^ 53"
    using b(1,2) p assms(4,6) by simp_all
  note h = this [THEN half_diff]
  note cx = centre_bounds [OF p(3) b(1)]
  note cy = centre_bounds [OF p(4) b(2)]
  have cw: "of_int srcW * exact - 1 / 2 - 1 / 2 ^ 25 < of_int pw
      \<and> of_int pw \<le> max 1 (of_int srcW * exact + 1 / 2 + 1 / 2 ^ 25)"
    unfolding pw_def x(1)
    using max_round_close [OF fit_close [OF assms(1,4) x(2,3)]] by blast
  have ch: "of_int srcH * exact - 1 / 2 - 1 / 2 ^ 25 < of_int ph
      \<and> of_int ph \<le> max 1 (of_int srcH * exact + 1 / 2 + 1 / 2 ^ 25)"
    unfolding ph_def x(1)
    using max_round_close [OF fit_close [OF assms(2,6) x(2,4)]] by blast
  have sel: "sx \<lparr>sx = a1, sy = a2, sw = a3, sh = a4, dx = a5, dy = a6, dw = a7, dh = a8\<rparr> = a1"
    "sy \<lparr>sx = a1, sy = a2, sw = a3, sh = a4, dx = a5, dy = a6, dw = a7, dh = a8\<rparr> = a2"
    "sw \<lparr>sx = a1, sy = a2, sw = a3, sh = a4, dx = a5, dy = a6, dw = a7, dh = a8\<rparr> = a3"
    "sh \<lparr>sx = a1, sy = a2, sw = a3, sh = a4, dx = a5, dy = a6, dw = a7, dh = a8\<rparr> = a4"
    "dx \<lparr>sx = a1, sy = a2, sw = a3, sh = a4, dx = a5, dy = a6, dw = a7, dh = a8\<rparr> = a5"
    "dy \<lparr>sx = a1, sy = a2, sw = a3, sh = a4, dx = a5, dy = a6, dw = a7, dh = a8\<rparr> = a6"
    "dw \<lparr>sx = a1, sy = a2, sw = a3, sh = a4, dx = a5, dy = a6, dw = a7, dh = a8\<rparr> = a7"
    "dh \<lparr>sx = a1, sy = a2, sw = a3, sh = a4, dx = a5, dy = a6, dw = a7, dh = a8\<rparr> = a8"
    for a1 a2 a3 a4 a5 a6 a7 a8 :: int
    by simp_all
  have eqs: "pw = max 1 (js_round (fmul (of_int srcW) scale))"
    "ph = max 1 (js_round (fmul (of_int srcH) scale))"
    by (simp_all add: pw_def ph_def)
  show ?thesis
    unfolding Let_def d W H sel scale_def [symmetric] exact_def [symmetric]
    using cw ch cx cy p(1,2) by (simp add: h eqs [symmetric])
qed

text \<open>The canvas that a successful \<open>renderAndEncode\<close> painted, and the size it reports.\<close>

lemma renderAndEncode_canvas:
  assumes "renderAndEncode e bm inputName inputMime targetW targetH mode outputFormat qualityScale
            allowEnlarge = Inr (r, c)"
  defines "st \<equiv> safeTarget allowEnlarge (bm_width bm) (bm_height bm) targetW targetH"
  defines "layout \<equiv> computeTargetSize (bm_width bm) (bm_height bm) (fst st) (snd st) mode"
  shows "r_outW r = outW layout" and "r_outH r = outH layout"
    and "c = drawImage bm (draw layout)
          (if mode = Pad \<or> pickOutputMime inputMime outputFormat = ''image/jpeg''
           then fillRect 0 0 (outW layout) (outH layout)
                  ((createCanvas (outW layout) (outH layout))\<lparr>c_fillStyle := WHITE_BG\<rparr>)
           else createCanvas (outW layout) (outH layout))"
    and "canvasToBlobSafe e c (pickOutputMime inputMime outputFormat) (mapQuality01 qualityScale)
          = Inr (r_blob r, r_mime r)"
  using assms(1) unfolding st_def layout_def renderAndEncode_def
  by (auto simp: Let_def split: if_splits sum.splits prod.splits)

lemmas canvas_eval =
  renderAndEncode_def safeTarget_def createCanvas_def
  fillRect_def drawImage_def canvasToBlobSafe_def isMimeSupportedByCanvas_def
  pickOutputMime_def mapQuality01_def WHITE_BG_def exampleEnv_def Let_def

lemmas render_eval = canvas_eval computeTargetSize_def js_round_def

text \<open>
  Claim C4. In mode pad with both targets present the output is exactly
  \<open>targetW x targetH\<close>. For positive dimensions below \<open>2 ^ 26\<close> the drawn size \<open>dw x dh\<close> is
  computed by the scale formula of mode inside, in doubles, and equals the output size of
  mode inside; it is within \<open>1/2 + 2 ^ - 25\<close> of the exact scaled size. The image is centred:
  \<open>dx = round ((targetW - dw) / 2)\<close>, \<open>dy = round ((targetH - dh) / 2)\<close>, half of the margin
  rounded up, and the drawn rectangle lies in the output. A successful \<open>renderAndEncode\<close>
  in mode pad paints exactly two commands on a canvas of the layout's size: a white
  rectangle over the whole canvas, then the image. A 1600x900 source with target 800x800
  gives an 800x450 image at \<open>dy = 175\<close> on an 800x800 canvas. An 800x600 source with target
  82x62 gives an 82x61 image at \<open>dy = 1\<close>: the double product \<open>600 * 0.1025\<close> lies just below
  the tie \<open>61.5\<close>.
\<close>

theorem pad_layout:
  "outW (computeTargetSize srcW srcH targetW (Some tH) Pad) = targetW
    \<and> outH (computeTargetSize srcW srcH targetW (Some tH) Pad) = tH
    \<and> (0 < srcW \<and> srcW < 2 ^ 26 \<and> 0 < srcH \<and> srcH < 2 ^ 26
        \<and> 0 < targetW \<and> targetW < 2 ^ 26 \<and> 0 < tH \<and> tH < 2 ^ 26 \<longrightarrow>
       (let d = draw (computeTargetSize srcW srcH targetW (Some tH) Pad);
            scale = min (fdiv (of_int targetW) (of_int srcW)) (fdiv (of_int tH) (of_int srcH));
            exact = min (of_int targetW / of_int srcW) (of_int tH / of_int srcH) :: real
        in dw d = max 1 (js_round (fmul (of_int srcW) scale))
         \<and> dh d = max 1 (js_round (fmul (of_int srcH) scale))
         \<and> dw d = outW (computeTargetSize srcW srcH targetW (Some tH) Inside)
         \<and> dh d = outH (computeTargetSize srcW srcH targetW (Some tH) Inside)
         \<and> of_int srcW * exact - 1 / 2 - 1 / 2 ^ 25 < of_int (dw d)
         \<and> of_int (dw d) \<le> max 1 (of_int srcW * exact + 1 / 2 + 1 / 2 ^ 25)
         \<and> of_int srcH * exact - 1 / 2 - 1 / 2 ^ 25 < of_int (dh d)
         \<and> of_int (dh d) \<le> max 1 (of_int srcH * exact + 1 / 2 + 1 / 2 ^ 25)
         \<and> dx d = js_round (fdiv (fsub (of_int targetW) (of_int (dw d))) 2)
         \<and> dy d = js_round (fdiv (fsub (of_int tH) (of_int (dh d))) 2)
         \<and> dx d = (targetW - dw d + 1) div 2
         \<and> dy d = (tH - dh d + 1) div 2
         \<and> 1 \<le> dw d \<and> 1 \<le> dh d
         \<and> 0 \<le> dx d \<and> dx d + dw d \<le> targetW
         \<and> 0 \<le> dy d \<and> dy d + dh d \<le> tH
         \<and> sx d = 0 \<and> sy d = 0 \<and> sw d = srcW \<and> sh d = srcH))
    \<and> (renderAndEncode e bm inputName inputMime targetW (Some tH) Pad outputFormat qualityScale
          allowEnlarge = Inr (r, c) \<longrightarrow>
        (let st = safeTarget allowEnlarge (bm_width bm) (bm_height bm) targetW (Some tH);
             layout = computeTargetSize (bm_width bm) (bm_height bm) (fst st) (snd st) Pad;
             d = draw layout
         in c_width c = outW layout \<and> c_height c = outH layout
          \<and> c_ops c = [FillRect ''#ffffff'' 0 0 (outW layout) (outH layout),
                        DrawImage bm (sx d) (sy d) (sw d) (sh d) (dx d) (dy d) (dw d) (dh d)]))
    \<and> computeTargetSize 1600 900 800 (Some 800) Pad =
        \<lparr>outW = 800, outH = 800,
         draw = \<lparr>sx = 0, sy = 0, sw = 1600, sh = 900, dx = 0, dy = 175, dw = 800, dh = 450\<rparr>\<rparr>
    \<and> computeTargetSize 800 600 82 (Some 62) Pad =
        \<lparr>outW = 82, outH = 62,
         draw = \<lparr>sx = 0, sy = 0, sw = 800, sh = 600, dx = 0, dy = 1, dw = 82, dh = 61\<rparr>\<rparr>"
proof -
  have out: "outW (computeTargetSize srcW srcH targetW (Some tH) Pad) = targetW"
    "outH (computeTargetSize srcW srcH targetW (Some tH) Pad) = tH"
    by (simp_all add: pad_result Let_def)
  have paint: "let st = safeTarget allowEnlarge (bm_width bm) (bm_height bm) targetW (Some tH);
             layout = computeTargetSize (bm_width bm) (bm_height bm) (fst st) (snd st) Pad;
             d = draw layout
         in c_width c = outW layout \<and> c_height c = outH layout
          \<and> c_ops c = [FillRect ''#ffffff'' 0 0 (outW layout) (outH layout),
                        DrawImage bm (sx d) (sy d) (sw d) (sh d) (dx d) (dy d) (dw d) (dh d)]"
    if "renderAndEncode e bm inputName inputMime targetW (Some tH) Pad outputFormat qualityScale
          allowEnlarge = Inr (r, c)"
    using renderAndEncode_canvas(3) [OF that]
    by (simp add: Let_def drawImage_def fillRect_def createCanvas_def WHITE_BG_def)
  have e1: "computeTargetSize 1600 900 800 (Some 800) Pad =
        \<lparr>outW = 800, outH = 800,
         draw = \<lparr>sx = 0, sy = 0, sw = 1600, sh = 900, dx = 0, dy = 175, dw = 800, dh = 450\<rparr>\<rparr>"
    by code_simp
  have e2: "computeTargetSize 800 600 82 (Some 62) Pad =
        \<lparr>outW = 82, outH = 62,
         draw = \<lparr>sx = 0, sy = 0, sw = 800, sh = 600, dx = 0, dy = 1, dw = 82, dh = 61\<rparr>\<rparr>"
    by code_simp
  show ?thesis
    apply (intro conjI impI)
         apply (rule out(1))
        apply (rule out(2))
       apply (elim conjE)
       apply (rule pad_geometry; assumption)
      apply (erule paint)
     apply (rule e1)
    apply (rule e2)
    done
qed

theorem pad_layout_witness:
  "renderAndEncode exampleEnv \<lparr>bm_width = 800, bm_height = 600\<rparr> ''a.png'' ''image/png''
      82 (Some 62) Pad Keep 3 True
    = Inr (\<lparr>r_blob = Blob [], r_mime = ''image/png'', r_outW = 82, r_outH = 62\<rparr>,
           \<lparr>c_width = 82, c_height = 62, c_fillStyle = ''#ffffff'',
            c_ops = [FillRect ''#ffffff'' 0 0 82 62,
                     DrawImage \<lparr>bm_width = 800, bm_height = 600\<rparr> 0 0 800 600 0 1 82 61]\<rparr>)
   \<and> (let d = draw (computeTargetSize 800 600 82 (Some 62) Pad)
      in dw d = 82 \<and> dh d = 61 \<and> dx d = 0 \<and> dy d = 1
       \<and> dw d = outW (computeTargetSize 800 600 82 (Some 62) Inside)
       \<and> dh d = outH (computeTargetSize 800 600 82 (Some 62) Inside))
   \<and> (let d = draw (computeTargetSize 1600 900 800 (Some 800) Pad)
      in dw d = 800 \<and> dh d = 450 \<and> dx d = 0 \<and> dy d = 175)"
proof -
  note t = pad_layout [of 800 600 82 62 exampleEnv "\<lparr>bm_width = 800, bm_height = 600\<rparr>"
      "''a.png''" "''image/png''" Keep 3 True, unfolded Let_def]
  have h: "0 < (800::int) \<and> (800::int) < 2 ^ 26 \<and> 0 < (600::int) \<and> (600::int) < 2 ^ 26
      \<and> 0 < (82::int) \<and> (82::int) < 2 ^ 26 \<and> 0 < (62::int) \<and> (62::int) < 2 ^ 26"
    by simp
  note g = t [THEN conjunct2, THEN conjunct2, THEN conjunct1, THEN mp, OF h]
  note e = t [THEN conjunct2, THEN conjunct2, THEN conjunct2, THEN conjunct2, THEN conjunct2]
  from g have i: "dw (draw (computeTargetSize 800 600 82 (Some 62) Pad))
        = outW (computeTargetSize 800 600 82 (Some 62) Inside)"
      "dh (draw (computeTargetSize 800 600 82 (Some 62) Pad))
        = outH (computeTargetSize 800 600 82 (Some 62) Inside)"
    by blast+
  have 1: "let d = draw (computeTargetSize 800 600 82 (Some 62) Pad)
      in dw d = 82 \<and> dh d = 61 \<and> dx d = 0 \<and> dy d = 1
       \<and> dw d = outW (computeTargetSize 800 600 82 (Some 62) Inside)
       \<and> dh d = outH (computeTargetSize 800 600 82 (Some 62) Inside)"
    using i by (simp add: Let_def e)
  have 2: "let d = draw (computeTargetSize 1600 900 800 (Some 800) Pad)
      in dw d = 800 \<and> dh d = 450 \<and> dx d = 0 \<and> dy d = 175"
    by (simp add: Let_def t [THEN conjunct2, THEN conjunct2, THEN conjunct2, THEN conjunct2, THEN conjunct1])
  have 3: "renderAndEncode exampleEnv \<lparr>bm_width = 800, bm_height = 600\<rparr> ''a.png'' ''image/png''
      82 (Some 62) Pad Keep 3 True
    = Inr (\<lparr>r_blob = Blob [], r_mime = ''image/png'', r_outW = 82, r_outH = 62\<rparr>,
           \<lparr>c_width = 82, c_height = 62, c_fillStyle = ''#ffffff'',
            c_ops = [FillRect ''#ffffff'' 0 0 82 62,
                     DrawImage \<lparr>bm_width = 800, bm_height = 600\<rparr> 0 0 800 600 0 1 82 61]\<rparr>)"
    by (simp add: canvas_eval e)
  from 1 2 3 show ?thesis by (intro conjI)
qed

text \<open>
  Claim C6. With \<open>allowEnlarge = false\<close> the targets handed to \<open>computeTargetSize\<close> are
  \<open>min targetW srcW\<close> and, when present, \<open>min targetH srcH\<close>; with \<open>allowEnlarge = true\<close>
  they are the requested ones. The layout that \<open>renderAndEncode\<close> reports and draws is
  that of the clamped targets. For a 500x500 source and target 1000x2000 the clamped target
  is 500x500 and the output is 500x500 in every mode. \<open>computeTargetSize\<close> itself does not
  clamp: called with target 1000x2000 in mode fill it returns 1000x2000.
\<close>

theorem upscaling_guard:
  "safeTarget False srcW srcH targetW targetH
      = (min targetW srcW, map_option (\<lambda>h. min h srcH) targetH)
    \<and> safeTarget True srcW srcH targetW targetH = (targetW, targetH)
    \<and> (renderAndEncode e bm inputName inputMime targetW targetH mode outputFormat qualityScale
          False = Inr (r, c) \<longrightarrow>
        (let layout = computeTargetSize (bm_width bm) (bm_height bm) (min targetW (bm_width bm))
                        (map_option (\<lambda>h. min h (bm_height bm)) targetH) mode;
             d = draw layout
         in r_outW r = outW layout \<and> r_outH r = outH layout
          \<and> c_width c = outW layout \<and> c_height c = outH layout
          \<and> last (c_ops c) = DrawImage bm (sx d) (sy d) (sw d) (sh d) (dx d) (dy d) (dw d) (dh d)))
    \<and> safeTarget False 500 500 1000 (Some 2000) = (500, Some 500)
    \<and> outW (computeTargetSize 500 500 500 (Some 500) mode) = 500
    \<and> outH (computeTargetSize 500 500 500 (Some 500) mode) = 500
    \<and> (bm_width bm = 500 \<and> bm_height bm = 500
        \<and> renderAndEncode e bm inputName inputMime 1000 (Some 2000) mode outputFormat
             qualityScale False = Inr (r, c) \<longrightarrow> r_outW r = 500 \<and> r_outH r = 500)
    \<and> outW (computeTargetSize 500 500 1000 (Some 2000) Fill) = 1000
    \<and> outH (computeTargetSize 500 500 1000 (Some 2000) Fill) = 2000"
proof -
  have st: "safeTarget False sw0 sh0 tw0 th0 = (min tw0 sw0, map_option (\<lambda>h. min h sh0) th0)"
    for sw0 sh0 tw0 th0
    by (cases th0) (simp_all add: safeTarget_def)
  have st': "safeTarget True srcW srcH targetW targetH = (targetW, targetH)"
    by (simp add: safeTarget_def)
  have run: "let layout = computeTargetSize (bm_width bm) (bm_height bm) (min tw0 (bm_width bm))
                        (map_option (\<lambda>h. min h (bm_height bm)) th0) mode;
             d = draw layout
         in r_outW r = outW layout \<and> r_outH r = outH layout
          \<and> c_width c = outW layout \<and> c_height c = outH layout
          \<and> last (c_ops c) = DrawImage bm (sx d) (sy d) (sw d) (sh d) (dx d) (dy d) (dw d) (dh d)"
    if "renderAndEncode e bm inputName inputMime tw0 th0 mode outputFormat qualityScale
          False = Inr (r, c)" for tw0 th0
    using renderAndEncode_canvas(1,2,3) [OF that]
    by (simp add: st Let_def drawImage_def fillRect_def createCanvas_def)
  have sq: "outW (computeTargetSize 500 500 500 (Some 500) mode) = 500
      \<and> outH (computeTargetSize 500 500 500 (Some 500) mode) = 500"
  proof (cases mode)
    case Inside
    have "(500::int) * 500 = 500 * 500" by simp
    from inside_bounds(4) [of 500 500 500 500, OF _ _ _ _ _ _ this] Inside show ?thesis
      by (simp add: inside_result Let_def)
  qed (simp_all add: cover_result pad_result computeTargetSize_def Let_def)
  have ex: "r_outW r = 500 \<and> r_outH r = 500"
    if "bm_width bm = 500 \<and> bm_height bm = 500
        \<and> renderAndEncode e bm inputName inputMime 1000 (Some 2000) mode outputFormat
             qualityScale False = Inr (r, c)"
    using run [of 1000 "Some 2000"] that sq by (simp add: Let_def)
  have nc: "outW (computeTargetSize 500 500 1000 (Some 2000) Fill) = 1000
    \<and> outH (computeTargetSize 500 500 1000 (Some 2000) Fill) = 2000"
    by (simp add: computeTargetSize_def)
  have st500: "safeTarget False 500 500 1000 (Some 2000) = (500, Some 500)"
    by (simp add: st)
  from st [of srcW srcH targetW targetH] st' run [of targetW targetH] st500 sq ex nc
  show ?thesis
    by blast
qed

theorem upscaling_guard_witness:
  "renderAndEncode exampleEnv \<lparr>bm_width = 500, bm_height = 500\<rparr> ''a.png'' ''image/png''
      1000 (Some 2000) Cover Keep 3 False
    = Inr (\<lparr>r_blob = Blob [], r_mime = ''image/png'', r_outW = 500, r_outH = 500\<rparr>,
           \<lparr>c_width = 500, c_height = 500, c_fillStyle = ''#000000'',
            c_ops = [DrawImage \<lparr>bm_width = 500, bm_height = 500\<rparr> 0 0 500 500 0 0 500 500]\<rparr>)
   \<and> outW (computeTargetSize 500 500 500 (Some 500) Cover) = 500"
proof -
  have e: "computeTargetSize 500 500 500 (Some 500) Cover =
      \<lparr>outW = 500, outH = 500,
       draw = \<lparr>sx = 0, sy = 0, sw = 500, sh = 500, dx = 0, dy = 0, dw = 500, dh = 500\<rparr>\<rparr>"
    by code_simp
  show ?thesis
    using upscaling_guard [of 500 500 1000 "Some 2000" exampleEnv
        "\<lparr>bm_width = 500, bm_height = 500\<rparr>" "''a.png''" "''image/png''" Cover Keep 3]
    by (simp add: canvas_eval e)
qed

section \<open>The bounds of a layout\<close>

lemma cover_invariant:
  assumes "0 < srcW" and "srcW < 2 ^ 26" and "0 < srcH" and "srcH < 2 ^ 26"
    and "0 < targetW" and "0 < tH" and "tH < 2 ^ 26"
  defines "d \<equiv> draw (computeTargetSize srcW srcH targetW (Some tH) Cover)"
  shows "0 \<le> sx d \<and> 0 \<le> sy d \<and> 0 \<le> sw d \<and> 0 \<le> sh d
    \<and> sx d + sw d \<le> srcW \<and> sy d + sh d \<le> srcH"
proof (cases "targetW * srcH < srcW * tH")
  case True
  define x where "x = fmul (of_int srcH) (fdiv (of_int targetW) (of_int tH))"
  note b = cover_wide [OF assms(1,2,3,5,6) True, folded x_def]
  have "\<bar>srcW - js_round x\<bar> < 2 ^ 53"
    using b(1,2) assms(2) by simp
  note h = half_diff [OF this]
  have dd: "d = \<lparr>sx = (srcW - js_round x + 1) div 2, sy = 0, sw = js_round x, sh = srcH,
                 dx = 0, dy = 0, dw = targetW, dh = tH\<rparr>"
    using True ratio_compare [OF assms(1,2,3,5,6,7)]
    by (simp add: d_def cover_result Let_def x_def [symmetric] h)
  from b(1,2) centre_bounds [OF b(1,2)] assms(3) show ?thesis
    by (simp add: dd)
next
  case False
  then have le: "srcW * tH \<le> targetW * srcH" by simp
  define y where "y = fdiv (of_int srcW) (fdiv (of_int targetW) (of_int tH))"
  note b = cover_tall [OF assms(1,3,4,5,6) le, folded y_def]
  have "\<bar>srcH - js_round y\<bar> < 2 ^ 53"
    using b(1,2) assms(4) by simp
  note h = half_diff [OF this]
  have dd: "d = \<lparr>sx = 0, sy = (srcH - js_round y + 1) div 2, sw = srcW, sh = js_round y,
                 dx = 0, dy = 0, dw = targetW, dh = tH\<rparr>"
    using False ratio_compare [OF assms(1,2,3,5,6,7)]
    by (simp add: d_def cover_result Let_def y_def [symmetric] h)
  from b(1,2) centre_bounds [OF b(1,2)] assms(1) show ?thesis
    by (simp add: dd)
qed

text \<open>
  Apart from the missing floor in mode cover, the layout is within bounds for positive
  dimensions below \<open>2 ^ 26\<close>: the output is at least 1x1, the source rectangle lies in the
  source, the destination rectangle lies in the output, the destination rectangle is at
  least 1x1, and outside mode cover so is the source rectangle.
\<close>

lemma layout_invariant_up_to_cover_floor:
  fixes mode :: Mode
  assumes "0 < srcW" and "srcW < 2 ^ 26" and "0 < srcH" and "srcH < 2 ^ 26"
    and "0 < targetW" and "targetW < 2 ^ 26"
    and "case targetH of None \<Rightarrow> True | Some h \<Rightarrow> 0 < h \<and> h < 2 ^ 26"
  defines "r \<equiv> computeTargetSize srcW srcH targetW targetH mode"
  shows "1 \<le> outW r \<and> 1 \<le> outH r
    \<and> 0 \<le> sx (draw r) \<and> 0 \<le> sy (draw r)
    \<and> sx (draw r) + sw (draw r) \<le> srcW \<and> sy (draw r) + sh (draw r) \<le> srcH
    \<and> 0 \<le> dx (draw r) \<and> 0 \<le> dy (draw r)
    \<and> dx (draw r) + dw (draw r) \<le> outW r \<and> dy (draw r) + dh (draw r) \<le> outH r
    \<and> 1 \<le> dw (draw r) \<and> 1 \<le> dh (draw r)
    \<and> 0 \<le> sw (draw r) \<and> 0 \<le> sh (draw r)
    \<and> (targetH = None \<or> mode \<noteq> Cover \<longrightarrow> 1 \<le> sw (draw r) \<and> 1 \<le> sh (draw r))"
proof (cases targetH)
  case None
  with assms(1,3,5) show ?thesis
    by (simp add: r_def computeTargetSize_def Let_def)
next
  case (Some tH)
  with assms(7) have tH: "0 < tH" "tH < 2 ^ 26" by simp_all
  show ?thesis
  proof (cases mode)
    case Fill
    with Some tH assms(1,3,5) show ?thesis
      by (simp add: r_def computeTargetSize_def)
  next
    case Cover
    have "outW r = targetW \<and> outH r = tH \<and> dx (draw r) = 0 \<and> dy (draw r) = 0
        \<and> dw (draw r) = targetW \<and> dh (draw r) = tH"
      by (simp add: r_def Some Cover cover_result Let_def)
    with cover_invariant [OF assms(1-5) tH] assms(5) tH Some Cover show ?thesis
      by (simp add: r_def)
  next
    case Inside
    have "1 \<le> outW r \<and> 1 \<le> outH r \<and> draw r = \<lparr>sx = 0, sy = 0, sw = srcW, sh = srcH,
        dx = 0, dy = 0, dw = outW r, dh = outH r\<rparr>"
      by (simp add: r_def Some Inside inside_result Let_def)
    with assms(1,3) show ?thesis
      by simp
  next
    case Pad
    have o: "outW r = targetW \<and> outH r = tH"
      by (simp add: r_def Some Pad pad_result Let_def)
    from pad_geometry [OF assms(1,3,5,6) tH]
    have "let d = draw r
        in 1 \<le> dw d \<and> 1 \<le> dh d \<and> 0 \<le> dx d \<and> dx d + dw d \<le> targetW
         \<and> 0 \<le> dy d \<and> dy d + dh d \<le> tH
         \<and> sx d = 0 \<and> sy d = 0 \<and> sw d = srcW \<and> sh d = srcH"
      unfolding Let_def r_def Some Pad by blast
    with o assms(1,3,5) tH show ?thesis
      by (simp add: Let_def)
  qed
qed

text \<open>
  Claim C1 says that, beside the bounds above, every rectangle width and height of the
  layout is at least 1. The width-only, inside and pad branches floor their rounded sizes
  with \<^verbatim>\<open>Math.max(1, ...)\<close>; the cover branch does not. For a 4x1 source and a 1x4 target
  in mode cover the source rectangle has width 0.
\<close>

theorem cover_zero_width_crop:
  "computeTargetSize 4 1 1 (Some 4) Cover =
    \<lparr>outW = 1, outH = 4,
     draw = \<lparr>sx = 2, sy = 0, sw = 0, sh = 1, dx = 0, dy = 0, dw = 1, dh = 4\<rparr>\<rparr>
   \<and> \<not> 1 \<le> sw (draw (computeTargetSize 4 1 1 (Some 4) Cover))"
proof -
  have e: "computeTargetSize 4 1 1 (Some 4) Cover =
    \<lparr>outW = 1, outH = 4,
     draw = \<lparr>sx = 2, sy = 0, sw = 0, sh = 1, dx = 0, dy = 0, dw = 1, dh = 4\<rparr>\<rparr>"
    by code_simp
  show ?thesis
    unfolding e by simp
qed

section \<open>Batches\<close>


























lemmas process_eval =
  processFile_def exampleFile_def exampleOptions_def extFromMime_def baseNameOf_def
  showInt_def showNat.simps




section \<open>The server route: validation and the decode work\<close>

lemma canvasToBlobSafe_mime:
  assumes "canvasToBlobSafe e c requestedMime q = Inr (b, m)"
  shows "m = requestedMime \<or> m = ''image/png''"
    and "\<not> isMimeSupportedByCanvas e requestedMime \<Longrightarrow> m = ''image/png''"
  using assms unfolding canvasToBlobSafe_def
  by (auto simp: Let_def split: option.splits if_splits)

lemma fileLoop_Completed:
  "fileLoop tb p files results decoded = (Completed outs, dec) \<Longrightarrow>
    dec = decoded @ files
    \<and> map out_filename outs = map out_filename results @ map (outName p) files
    \<and> (\<forall>f\<in>set files. fileValid f)"
proof (induction files arbitrary: results decoded)
  case Nil
  then show ?case by simp
next
  case (Cons f fs)
  from Cons.prems obtain buf where
    v: "f_type f \<in> set ALLOWED_MIMES" "\<not> f_size f > MAX_SIZE_PER_FILE"
    and rest: "fileLoop tb p fs
        (results @ [\<lparr>out_filename = outName p f,
                     out_mime = outputMimeFromExt (outputExtension (pd_format p) (f_type f)),
                     out_buffer = buf\<rparr>]) (decoded @ [f]) = (Completed outs, dec)"
    by (auto split: if_splits option.splits)
  from Cons.IH [OF rest] v show ?case
    by (simp add: fileValid_def)
qed



text \<open>What the schema accepts: integers in range.\<close>

lemma intInRange_Some:
  "intInRange lo hi v = Some n \<longleftrightarrow> v = Num (of_int n) \<and> lo \<le> n \<and> n \<le> hi"
proof (cases v)
  case NaN
  then show ?thesis by (simp add: intInRange_def)
next
  case (Num r)
  show ?thesis
  proof
    assume "intInRange lo hi v = Some n"
    with Num have r: "r = of_int \<lfloor>r\<rfloor>" "of_int lo \<le> r" "r \<le> of_int hi" "n = \<lfloor>r\<rfloor>"
      by (auto simp: intInRange_def split: if_splits)
    from r(1,4) have "r = of_int n" by simp
    with r(2,3) Num show "v = Num (of_int n) \<and> lo \<le> n \<and> n \<le> hi"
      by simp
  next
    assume "v = Num (of_int n) \<and> lo \<le> n \<and> n \<le> hi"
    then show "intInRange lo hi v = Some n"
      by (simp add: intInRange_def)
  qed
qed


lemma schema_ranges:
  assumes "schema form = Inr p"
  shows "1 \<le> pd_width p \<and> pd_width p \<le> 8000"
    and "pd_height p = Some h \<Longrightarrow> 1 \<le> h \<and> h \<le> 8000"
    and "1 \<le> pd_qualityScale p \<and> pd_qualityScale p \<le> 5"
proof -
  from assms obtain w q where
    w: "form_width form \<noteq> None" "intInRange 1 8000 (the (form_width form)) = Some w"
      "pd_width p = w"
    and q: "intInRange 1 5 (form_qualityScale form) = Some q" "pd_qualityScale p = q"
    and hh: "pd_height p = (case form_height form of None \<Rightarrow> None | Some v \<Rightarrow> intInRange 1 8000 v)"
    by (auto simp: schema_def Let_def split: if_splits option.splits)
  from w(2,3) show "1 \<le> pd_width p \<and> pd_width p \<le> 8000"
    by (simp add: intInRange_Some)
  from q show "1 \<le> pd_qualityScale p \<and> pd_qualityScale p \<le> 5"
    by (simp add: intInRange_Some)
  show "1 \<le> h \<and> h \<le> 8000" if "pd_height p = Some h"
    using that hh by (auto simp: intInRange_Some split: option.splits)
qed


lemmas post_eval =
  POST_def schema_def intInRange_def parseBool_def exampleForm_def exampleSharp_def
  exampleFile_def buildPipeline_def outName_def outputExtension_def outputMimeFromExt_def
  mapQuality_def ALLOWED_MIMES_def MAX_FILES_def MAX_SIZE_PER_FILE_def DEFAULT_BACKGROUND_def
  baseNameOf_def showInt_def showNat.simps fileValid_def Let_def



section \<open>Output file names\<close>

text \<open>
  The base name: a last extension of at least one character is removed; a name without a
  dot, or one that ends in a dot, is kept.
\<close>

lemma baseNameOf_ext:
  assumes "ext \<noteq> []" and "CHR ''.'' \<notin> set ext"
  shows "baseNameOf (b @ ''.'' @ ext) = b"
proof -
  have "takeWhile (\<lambda>c. c \<noteq> CHR ''.'') (rev ext @ CHR ''.'' # rev b)
      = rev ext @ takeWhile (\<lambda>c. c \<noteq> CHR ''.'') (CHR ''.'' # rev b)"
    using assms(2) by (intro takeWhile_append2) auto
  then have "takeWhile (\<lambda>c. c \<noteq> CHR ''.'') (rev (b @ ''.'' @ ext)) = rev ext"
    by simp
  then show ?thesis
    using assms(1) unfolding baseNameOf_def Let_def by simp
qed

lemma baseNameOf_no_dot:
  assumes "CHR ''.'' \<notin> set s"
  shows "baseNameOf s = s"
proof -
  have "\<forall>c\<in>set (rev s). c \<noteq> CHR ''.''"
    using assms by auto
  then have "takeWhile (\<lambda>c. c \<noteq> CHR ''.'') (rev s) = rev s"
    by (simp only: takeWhile_eq_all_conv)
  then have "length (takeWhile (\<lambda>c. c \<noteq> CHR ''.'') (rev s)) = length s"
    by (simp only: length_rev)
  then show ?thesis
    unfolding baseNameOf_def Let_def by (simp del: takeWhile_eq_all_conv)
qed

lemma baseNameOf_trailing_dot: "baseNameOf (s @ ''.'') = s @ ''.''"
  by (simp add: baseNameOf_def Let_def)

lemma showNat_digits: "set (showNat n) \<subseteq> set ''0123456789''"
proof (induction n rule: showNat.induct)
  case (1 n)
  have d: "''0123456789'' ! k \<in> set ''0123456789''" if "k < 10" for k
    using that by (intro nth_mem) simp
  show ?case
  proof (cases "n < 10")
    case True
    then show ?thesis
      using d [of n] by (subst showNat.simps) simp
  next
    case False
    have "n mod 10 < 10" by simp
    with 1 False d [of "n mod 10"] show ?thesis
      by (subst showNat.simps) simp
  qed
qed

lemma showInt_chars: "set (showInt i) \<subseteq> insert (CHR ''-'') (set ''0123456789'')"
proof (cases "i < 0")
  case True
  then have "set (showInt i) = insert (CHR ''-'') (set (showNat (nat (- i))))"
    by (simp add: showInt_def)
  then show ?thesis
    using showNat_digits [of "nat (- i)"] by (metis insert_mono)
next
  case False
  then have "showInt i = showNat (nat i)"
    by (simp add: showInt_def)
  then show ?thesis
    using showNat_digits [of "nat i"] by (metis subset_insertI2)
qed

lemma showInt_no_letter: "CHR ''a'' \<notin> set (showInt i)"
proof -
  have "CHR ''a'' \<notin> insert (CHR ''-'') (set ''0123456789'')"
    by simp
  then show ?thesis
    using showInt_chars [of i] by (meson subsetD)
qed

text \<open>
  Claim C8, as the two pipelines have it. In the browser pipeline the name of a processed
  item is the base name of the input, the computed output width and height, and the
  extension of the MIME type that the encoder finally produced: the requested type, or
  \<^verbatim>\<open>image/png\<close> after a fallback. In the server route the name is the base name, the
  requested width, the requested height or \<^verbatim>\<open>auto\<close>, and the extension of the requested
  format (of the input type when none is requested).
\<close>

theorem output_filename:
  "(processFile e options f = Inr it \<longrightarrow>
      (\<exists>bm r c. createImageBitmap e f = Some bm
        \<and> renderAndEncode e bm (f_name f) (f_type f) (o_width options) (o_height options)
            (o_mode options) (o_format options) (o_qualityScale options) (o_allowEnlarge options)
            = Inr (r, c)
        \<and> it_filename it = baseNameOf (f_name f) @ ''_'' @ showInt (r_outW r) @ ''x''
                            @ showInt (r_outH r) @ ''.'' @ extFromMime (it_mime it)
        \<and> it_mime it = r_mime r
        \<and> (let st = safeTarget (o_allowEnlarge options) (bm_width bm) (bm_height bm)
                       (o_width options) (o_height options);
                layout = computeTargetSize (bm_width bm) (bm_height bm) (fst st) (snd st)
                           (o_mode options)
            in r_outW r = outW layout \<and> r_outH r = outH layout
             \<and> c_width c = outW layout \<and> c_height c = outH layout)
        \<and> canvasToBlobSafe e c (pickOutputMime (f_type f) (o_format options))
              (mapQuality01 (o_qualityScale options)) = Inr (it_blob it, it_mime it)
        \<and> (it_mime it = pickOutputMime (f_type f) (o_format options) \<or> it_mime it = ''image/png'')
        \<and> (\<not> isMimeSupportedByCanvas e (pickOutputMime (f_type f) (o_format options))
              \<longrightarrow> it_mime it = ''image/png'')))
    \<and> (fileLoop tb p files [] [] = (Completed outs, dec) \<longrightarrow>
          map out_filename outs = map (outName p) files)
    \<and> outName p f = baseNameOf (f_name f) @ ''_'' @ showInt (pd_width p) @ ''x''
          @ (case pd_height p of None \<Rightarrow> ''auto'' | Some h \<Rightarrow> showInt h)
          @ ''.'' @ outputExtension (pd_format p) (f_type f)"
proof -
  have client: "\<exists>bm r c. createImageBitmap e f = Some bm
        \<and> renderAndEncode e bm (f_name f) (f_type f) (o_width options) (o_height options)
            (o_mode options) (o_format options) (o_qualityScale options) (o_allowEnlarge options)
            = Inr (r, c)
        \<and> it_filename it = baseNameOf (f_name f) @ ''_'' @ showInt (r_outW r) @ ''x''
                            @ showInt (r_outH r) @ ''.'' @ extFromMime (it_mime it)
        \<and> it_mime it = r_mime r
        \<and> (let st = safeTarget (o_allowEnlarge options) (bm_width bm) (bm_height bm)
                       (o_width options) (o_height options);
                layout = computeTargetSize (bm_width bm) (bm_height bm) (fst st) (snd st)
                           (o_mode options)
            in r_outW r = outW layout \<and> r_outH r = outH layout
             \<and> c_width c = outW layout \<and> c_height c = outH layout)
        \<and> canvasToBlobSafe e c (pickOutputMime (f_type f) (o_format options))
              (mapQuality01 (o_qualityScale options)) = Inr (it_blob it, it_mime it)
        \<and> (it_mime it = pickOutputMime (f_type f) (o_format options) \<or> it_mime it = ''image/png'')
        \<and> (\<not> isMimeSupportedByCanvas e (pickOutputMime (f_type f) (o_format options))
              \<longrightarrow> it_mime it = ''image/png'')"
    if ok: "processFile e options f = Inr it"
  proof -
    from ok obtain bm r c where
      bm: "createImageBitmap e f = Some bm"
      and re: "renderAndEncode e bm (f_name f) (f_type f) (o_width options) (o_height options)
            (o_mode options) (o_format options) (o_qualityScale options) (o_allowEnlarge options)
            = Inr (r, c)"
      and it: "it = \<lparr>it_filename = baseNameOf (f_name f) @ ''_'' @ showInt (r_outW r) @ ''x''
                            @ showInt (r_outH r) @ ''.'' @ extFromMime (r_mime r),
                     it_mime = r_mime r, it_blob = r_blob r\<rparr>"
      by (auto simp: processFile_def Let_def split: option.splits sum.splits)
    note cv = renderAndEncode_canvas [OF re]
    have dims: "let st = safeTarget (o_allowEnlarge options) (bm_width bm) (bm_height bm)
                       (o_width options) (o_height options);
                layout = computeTargetSize (bm_width bm) (bm_height bm) (fst st) (snd st)
                           (o_mode options)
            in r_outW r = outW layout \<and> r_outH r = outH layout
             \<and> c_width c = outW layout \<and> c_height c = outH layout"
      unfolding Let_def using cv(1,2,3)
      by (simp add: drawImage_def fillRect_def createCanvas_def)
    from bm re it dims cv(4) canvasToBlobSafe_mime [OF cv(4)] show ?thesis
      by (intro exI [of _ bm] exI [of _ r] exI [of _ c]) simp
  qed
  have server: "map out_filename outs = map (outName p) files"
    if "fileLoop tb p files [] [] = (Completed outs, dec)"
    using fileLoop_Completed [OF that] by simp
  have name: "outName p f = baseNameOf (f_name f) @ ''_'' @ showInt (pd_width p) @ ''x''
          @ (case pd_height p of None \<Rightarrow> ''auto'' | Some h \<Rightarrow> showInt h)
          @ ''.'' @ outputExtension (pd_format p) (f_type f)"
    by (simp add: outName_def)
  show ?thesis
  proof (intro conjI impI)
    assume "processFile e options f = Inr it"
    then show "\<exists>bm r c. createImageBitmap e f = Some bm
        \<and> renderAndEncode e bm (f_name f) (f_type f) (o_width options) (o_height options)
            (o_mode options) (o_format options) (o_qualityScale options) (o_allowEnlarge options)
            = Inr (r, c)
        \<and> it_filename it = baseNameOf (f_name f) @ ''_'' @ showInt (r_outW r) @ ''x''
                            @ showInt (r_outH r) @ ''.'' @ extFromMime (it_mime it)
        \<and> it_mime it = r_mime r
        \<and> (let st = safeTarget (o_allowEnlarge options) (bm_width bm) (bm_height bm)
                       (o_width options) (o_height options);
                layout = computeTargetSize (bm_width bm) (bm_height bm) (fst st) (snd st)
                           (o_mode options)
            in r_outW r = outW layout \<and> r_outH r = outH layout
             \<and> c_width c = outW layout \<and> c_height c = outH layout)
        \<and> canvasToBlobSafe e c (pickOutputMime (f_type f) (o_format options))
              (mapQuality01 (o_qualityScale options)) = Inr (it_blob it, it_mime it)
        \<and> (it_mime it = pickOutputMime (f_type f) (o_format options) \<or> it_mime it = ''image/png'')
        \<and> (\<not> isMimeSupportedByCanvas e (pickOutputMime (f_type f) (o_format options))
              \<longrightarrow> it_mime it = ''image/png'')"
      by (rule client)
  next
    assume "fileLoop tb p files [] [] = (Completed outs, dec)"
    then show "map out_filename outs = map (outName p) files"
      by (rule server)
  next
    show "outName p f = baseNameOf (f_name f) @ ''_'' @ showInt (pd_width p) @ ''x''
          @ (case pd_height p of None \<Rightarrow> ''auto'' | Some h \<Rightarrow> showInt h)
          @ ''.'' @ outputExtension (pd_format p) (f_type f)"
      by (rule name)
  qed
qed

theorem output_filename_witness:
  "processFile exampleEnv (exampleOptions Webp) (exampleFile ''photo.final.jpeg'' [10])
    = Inr \<lparr>it_filename = ''photo.final_800x450.png'', it_mime = ''image/png'', it_blob = Blob []\<rparr>
   \<and> pickOutputMime ''image/png'' Webp = ''image/webp''
   \<and> fileLoop exampleSharp
        \<lparr>pd_width = 800, pd_height = Some 600, pd_mode = Inside, pd_format = Some ''jpeg'',
         pd_qualityScale = 3, pd_download = Json, pd_allowEnlarge = False\<rparr>
        [exampleFile ''photo.png'' [10]] [] []
      = (Completed [\<lparr>out_filename = ''photo_800x600.jpg'', out_mime = ''image/jpeg'',
                     out_buffer = [10]\<rparr>],
         [exampleFile ''photo.png'' [10]])"
proof -
  have run: "processFile exampleEnv (exampleOptions Webp) (exampleFile ''photo.final.jpeg'' [10])
    = Inr \<lparr>it_filename = ''photo.final_800x450.png'', it_mime = ''image/png'', it_blob = Blob []\<rparr>"
    by (simp add: process_eval render_eval)
  have srv: "fileLoop exampleSharp
        \<lparr>pd_width = 800, pd_height = Some 600, pd_mode = Inside, pd_format = Some ''jpeg'',
         pd_qualityScale = 3, pd_download = Json, pd_allowEnlarge = False\<rparr>
        [exampleFile ''photo.png'' [10]] [] []
      = (Completed [\<lparr>out_filename = ''photo_800x600.jpg'', out_mime = ''image/jpeg'',
                     out_buffer = [10]\<rparr>],
         [exampleFile ''photo.png'' [10]])"
    by (simp add: post_eval)
  from output_filename [of exampleEnv "exampleOptions Webp" "exampleFile ''photo.final.jpeg'' [10]"
      "\<lparr>it_filename = ''photo.final_800x450.png'', it_mime = ''image/png'', it_blob = Blob []\<rparr>"
      exampleSharp
      "\<lparr>pd_width = 800, pd_height = Some 600, pd_mode = Inside, pd_format = Some ''jpeg'',
         pd_qualityScale = 3, pd_download = Json, pd_allowEnlarge = False\<rparr>"
      "[exampleFile ''photo.png'' [10]]"]
    run srv
  show ?thesis
    by (simp add: pickOutputMime_def)
qed

text \<open>
  The server names the output of \<^verbatim>\<open>photo.png\<close> for width 800 and no height
  \<^verbatim>\<open>photo_800xauto.png\<close>, which is not the base name followed by two numbers.
\<close>

theorem server_filename_counterexample:
  "POST exampleSharp (Some (exampleForm [exampleFile ''photo.png'' [10]]))
    = (ZipResponse ''images_800xauto.zip''
         [\<lparr>out_filename = ''photo_800xauto.png'', out_mime = ''image/png'', out_buffer = [10]\<rparr>],
       [exampleFile ''photo.png'' [10]])
   \<and> \<not> (\<exists>w h. ''photo_800xauto.png''
              = baseNameOf ''photo.png'' @ ''_'' @ showInt w @ ''x'' @ showInt h @ ''.'' @ ''png'')"
proof -
  have run: "POST exampleSharp (Some (exampleForm [exampleFile ''photo.png'' [10]]))
    = (ZipResponse ''images_800xauto.zip''
         [\<lparr>out_filename = ''photo_800xauto.png'', out_mime = ''image/png'', out_buffer = [10]\<rparr>],
       [exampleFile ''photo.png'' [10]])"
    by (simp add: post_eval parseMode_def parseDownload_def)
  have no: False
    if eq: "''photo_800xauto.png''
              = baseNameOf ''photo.png'' @ ''_'' @ showInt w @ ''x'' @ showInt h @ ''.'' @ ''png''"
    for w h
  proof -
    have "CHR ''a'' \<in> set ''photo_800xauto.png''"
      by simp
    then have "CHR ''a'' \<in> set (baseNameOf ''photo.png'' @ ''_'' @ showInt w @ ''x'' @ showInt h
        @ ''.'' @ ''png'')"
      unfolding eq [symmetric] .
    then have "CHR ''a'' \<in> set (showInt w) \<or> CHR ''a'' \<in> set (showInt h)"
      by (simp add: baseNameOf_def)
    then show False
      using showInt_no_letter [of w] showInt_no_letter [of h] by blast
  qed
  from run no show ?thesis
    by blast
qed

end
